theory Spec2Isabelle
  imports Main "HOL-Library.Word" "HOL-Library.AList"
begin

unbundle bit_operations_syntax

section \<open>The C library helpers used by fsynctest.cpp\<close>

text \<open>
  \<^verbatim>\<open>fsynctest.cpp\<close> calls \<^verbatim>\<open>dirname\<close>, \<^verbatim>\<open>basename\<close> (from \<^verbatim>\<open>libgen.h\<close>),
  \<^verbatim>\<open>strerror\<close> and \<^verbatim>\<open>atoi\<close>. They belong to the C library, not to the program; they are
  written out here so that every definition below computes.
\<close>

definition slash :: char where
  "slash = CHR ''/''"

definition strip_trailing_slashes :: "string \<Rightarrow> string" where
  "strip_trailing_slashes p = rev (dropWhile (\<lambda>c. c = slash) (rev p))"

text \<open>
  Modelled from the spec: \<^verbatim>\<open>basename(3)\<close> of the C library (section 3: trailing slashes
  stripped, empty gives \<^verbatim>\<open>.\<close>, root preserved).
\<close>

definition posix_basename :: "string \<Rightarrow> string" where
  "posix_basename p =
     (if p = [] then ''.''
      else let s = strip_trailing_slashes p
           in if s = [] then ''/''
              else rev (takeWhile (\<lambda>c. c \<noteq> slash) (rev s)))"

text \<open>
  Modelled from the spec: \<^verbatim>\<open>dirname(3)\<close> of the C library (section 3: trailing slashes
  stripped, empty gives \<^verbatim>\<open>.\<close>, root preserved).
\<close>

definition posix_dirname :: "string \<Rightarrow> string" where
  "posix_dirname p =
     (if p = [] then ''.''
      else let s = strip_trailing_slashes p
           in if s = [] then ''/''
              else let d = rev (dropWhile (\<lambda>c. c \<noteq> slash) (rev s))
                   in if d = [] then ''.''
                      else let d' = strip_trailing_slashes d
                           in if d' = [] then ''/'' else d')"

text \<open>Decimal rendering of a natural number, for the text of an unknown error code.\<close>

fun show_nat :: "nat \<Rightarrow> string" where
  "show_nat n =
     (if n < 10 then [char_of (48 + n)]
      else show_nat (n div 10) @ [char_of (48 + n mod 10)])"

definition show_int :: "int \<Rightarrow> string" where
  "show_int i = (if i < 0 then CHR ''-'' # show_nat (nat (- i)) else show_nat (nat i))"

text \<open>
  Modelled from the spec: \<^verbatim>\<open>strerror(3)\<close> of the C library, with the texts of the GNU C
  library for the error codes that the system calls below can report.
\<close>

definition strerror :: "int \<Rightarrow> string" where
  "strerror e =
     (if e = 1 then ''Operation not permitted''
      else if e = 2 then ''No such file or directory''
      else if e = 4 then ''Interrupted system call''
      else if e = 5 then ''Input/output error''
      else if e = 9 then ''Bad file descriptor''
      else if e = 12 then ''Cannot allocate memory''
      else if e = 13 then ''Permission denied''
      else if e = 16 then ''Device or resource busy''
      else if e = 20 then ''Not a directory''
      else if e = 21 then ''Is a directory''
      else if e = 24 then ''Too many open files''
      else if e = 28 then ''No space left on device''
      else if e = 30 then ''Read-only file system''
      else if e = 122 then ''Disk quota exceeded''
      else ''Unknown error '' @ show_int e)"

definition isspace :: "char \<Rightarrow> bool" where
  "isspace c = (of_char c \<in> {9, 10, 11, 12, 13, 32 :: nat})"

definition isdigit :: "char \<Rightarrow> bool" where
  "isdigit c = (48 \<le> (of_char c :: nat) \<and> (of_char c :: nat) \<le> 57)"

fun digits_value :: "int \<Rightarrow> string \<Rightarrow> int" where
  "digits_value acc [] = acc"
| "digits_value acc (c # cs) =
     (if isdigit c then digits_value (acc * 10 + (of_char c - 48)) cs else acc)"

definition LONG_MAX :: int where
  "LONG_MAX = 2 ^ 63 - 1"

definition LONG_MIN :: int where
  "LONG_MIN = - (2 ^ 63)"

text \<open>
  \<^verbatim>\<open>strtol(s, NULL, 10)\<close>: leading white space, an optional sign, then the longest run of
  decimal digits; what follows the digits is ignored, no digits give 0, and a value out
  of the range of \<^verbatim>\<open>long\<close> saturates.
\<close>

definition strtol :: "string \<Rightarrow> int" where
  "strtol s =
     (case dropWhile isspace s of
        [] \<Rightarrow> 0
      | c # cs \<Rightarrow>
          if c = CHR ''-'' then max LONG_MIN (- digits_value 0 cs)
          else if c = CHR ''+'' then min LONG_MAX (digits_value 0 cs)
          else min LONG_MAX (digits_value 0 (c # cs)))"

text \<open>
  \<^verbatim>\<open>atoi(s)\<close> is \<^verbatim>\<open>(int) strtol(s, NULL, 10)\<close> in the GNU C library: the conversion to the
  32-bit \<^verbatim>\<open>int\<close> keeps the low 32 bits, read as two's complement.
\<close>

definition atoi :: "string \<Rightarrow> int" where
  "atoi s = sint (word_of_int (strtol s) :: 32 word)"

section \<open>The file system and the system calls\<close>

text \<open>
  The program acts on the operating system only through system calls. The state of the
  operating system that these calls read and change is a record: the directories, the
  directory entries (a name in a directory bound to an inode), the contents of each
  inode, the table of open descriptors, \<^verbatim>\<open>errno\<close>, the standard output, and a log of every
  system call made (\<open>timestamps\<close> is the text of the wall clock, read at the index
  of the next call). The environment decides, call by call, whether a call fails for a
  reason outside the modelled state (an I/O error, a full disk, ...) and how many bytes a
  transfer moves: that is the field \<open>verdicts\<close>, read at the index of the call.
\<close>

type_synonym fd_t = int
type_synonym flags_t = "32 word"
type_synonym mode_t = "32 word"

datatype fault = EPERM | EINTR | EIO | ENOMEM | EACCES | EMFILE | ENOSPC | EROFS | EDQUOT

definition errno_of :: "fault \<Rightarrow> int" where
  "errno_of f =
     (case f of EPERM \<Rightarrow> 1 | EINTR \<Rightarrow> 4 | EIO \<Rightarrow> 5 | ENOMEM \<Rightarrow> 12 | EACCES \<Rightarrow> 13
      | EMFILE \<Rightarrow> 24 | ENOSPC \<Rightarrow> 28 | EROFS \<Rightarrow> 30 | EDQUOT \<Rightarrow> 122)"

definition ENOENT :: int where "ENOENT = 2"
definition EBADF :: int where "EBADF = 9"
definition EBUSY :: int where "EBUSY = 16"
definition ENOTDIR :: int where "ENOTDIR = 20"
definition EISDIR :: int where "EISDIR = 21"

definition O_RDONLY :: flags_t where "O_RDONLY = 0x0"
definition O_WRONLY :: flags_t where "O_WRONLY = 0x1"
definition O_CREAT :: flags_t where "O_CREAT = 0x40"
definition O_TRUNC :: flags_t where "O_TRUNC = 0x200"
definition O_CLOEXEC :: flags_t where "O_CLOEXEC = 0x80000"

definition S_IRUSR :: mode_t where "S_IRUSR = 0x100"
definition S_IWUSR :: mode_t where "S_IWUSR = 0x80"
definition S_IRGRP :: mode_t where "S_IRGRP = 0x20"
definition S_IROTH :: mode_t where "S_IROTH = 0x4"

text \<open>The environment's verdict on one system call.\<close>

datatype verdict =
    Proceed nat  \<comment> \<open>no outside failure; a transfer moves at most this many bytes\<close>
  | Fault fault  \<comment> \<open>the call fails with this error\<close>

text \<open>What an open descriptor refers to.\<close>

datatype fobj =
    DirObj string    \<comment> \<open>a directory, by the path it was opened with\<close>
  | FileObj nat nat  \<comment> \<open>an inode and the file offset\<close>

datatype event =
    EvOpen string flags_t
  | EvOpenat fd_t string flags_t mode_t
  | EvWrite fd_t string
  | EvRead fd_t nat
  | EvFsync fd_t
  | EvClose fd_t
  | EvUnlinkat fd_t string
  | EvRenameat fd_t string fd_t string

datatype out =
    OutLine string     \<comment> \<open>a line of text\<close>
  | OutElapsed string  \<comment> \<open>the line of the elapsed time monitor for this operation\<close>

record world =
  dirs :: "string list"
  entries :: "((string \<times> string) \<times> nat) list"
  inodes :: "nat \<Rightarrow> string"
  fdtab :: "(fd_t \<times> fobj) list"
  verdicts :: "nat \<Rightarrow> verdict"
  trace :: "event list"
  errno :: int
  stdout :: "out list"
  timestamps :: "nat \<Rightarrow> string"

definition verdict_now :: "world \<Rightarrow> verdict" where
  "verdict_now w = verdicts w (length (trace w))"

definition log_event :: "event \<Rightarrow> world \<Rightarrow> world" where
  "log_event ev w = w\<lparr>trace := trace w @ [ev]\<rparr>"

definition fail_with :: "int \<Rightarrow> world \<Rightarrow> int \<times> world" where
  "fail_with e w = (- 1, w\<lparr>errno := e\<rparr>)"

text \<open>The lowest descriptor number that is not in use.\<close>

fun lowest_free :: "fd_t list \<Rightarrow> nat \<Rightarrow> fd_t \<Rightarrow> fd_t" where
  "lowest_free used 0 n = n"
| "lowest_free used (Suc k) n = (if n \<in> set used then lowest_free used k (n + 1) else n)"

definition alloc_fd :: "world \<Rightarrow> fd_t" where
  "alloc_fd w = lowest_free (map fst (fdtab w)) (length (fdtab w)) 0"

fun list_max :: "nat list \<Rightarrow> nat" where
  "list_max [] = 0"
| "list_max (x # xs) = max x (list_max xs)"

fun inode_of :: "fobj \<Rightarrow> nat" where
  "inode_of (DirObj d) = 0"
| "inode_of (FileObj i off) = i"

text \<open>An inode number that no directory entry and no open descriptor refers to.\<close>

definition fresh_inode :: "world \<Rightarrow> nat" where
  "fresh_inode w = Suc (list_max (map snd (entries w) @ map (inode_of \<circ> snd) (fdtab w)))"

definition install_fd :: "fobj \<Rightarrow> world \<Rightarrow> int \<times> world" where
  "install_fd obj w = (alloc_fd w, w\<lparr>fdtab := (alloc_fd w, obj) # fdtab w\<rparr>)"

text \<open>
  The state lists its directories by path; every other name is bound in a directory to
  an inode, or not at all. The names \<^verbatim>\<open>.\<close>, \<^verbatim>\<open>..\<close> and \<^verbatim>\<open>/\<close> always stand for a directory, and so
  does a name in a directory when the path of a listed directory splits into that directory
  and that name.
\<close>

definition special_name :: "string \<Rightarrow> bool" where
  "special_name n = (n = ''.'' \<or> n = ''..'' \<or> n = ''/'')"

definition names_dir :: "world \<Rightarrow> string \<Rightarrow> string \<Rightarrow> bool" where
  "names_dir w d n =
     (special_name n \<or> (d, n) \<in> set (map (\<lambda>p. (posix_dirname p, posix_basename p)) (dirs w)))"

text \<open>
  What a path refers to, or the error of looking it up. The empty path names nothing. A
  listed directory is found under its path. Any other path names the entry
  \<^verbatim>\<open>basename(path)\<close> of the directory \<^verbatim>\<open>dirname(path)\<close>, which must be listed; and when
  that entry is a file, a path that ends in a slash is refused, since it asks for a
  directory.
\<close>

definition lookup_path :: "world \<Rightarrow> string \<Rightarrow> int + fobj" where
  "lookup_path w path =
     (if path = [] then Inl ENOENT
      else if path \<in> set (dirs w) then Inr (DirObj path)
      else if posix_dirname path \<notin> set (dirs w)
              \<or> names_dir w (posix_dirname path) (posix_basename path)
      then Inl ENOENT
      else case map_of (entries w) (posix_dirname path, posix_basename path) of
             None \<Rightarrow> Inl ENOENT
           | Some i \<Rightarrow> if last path = slash then Inl ENOTDIR else Inr (FileObj i 0))"

text \<open>\<^verbatim>\<open>open(path, flags)\<close> without \<^verbatim>\<open>O_CREAT\<close>.\<close>

definition sys_open :: "string \<Rightarrow> flags_t \<Rightarrow> world \<Rightarrow> int \<times> world" where
  "sys_open path flags w =
     (let w1 = log_event (EvOpen path flags) w
      in case verdict_now w of
           Fault f \<Rightarrow> fail_with (errno_of f) w1
         | Proceed n \<Rightarrow>
             (case lookup_path w1 path of
                Inl e \<Rightarrow> fail_with e w1
              | Inr obj \<Rightarrow> install_fd obj w1))"

text \<open>
  \<^verbatim>\<open>openat(dirfd, name, flags, mode)\<close> for writing: a directory is refused; an existing
  entry is opened (and emptied under \<^verbatim>\<open>O_TRUNC\<close>); a missing one is created under
  \<^verbatim>\<open>O_CREAT\<close>, bound to a fresh empty inode.
\<close>

definition sys_openat :: "fd_t \<Rightarrow> string \<Rightarrow> flags_t \<Rightarrow> mode_t \<Rightarrow> world \<Rightarrow> int \<times> world" where
  "sys_openat dirfd name flags mode w =
     (let w1 = log_event (EvOpenat dirfd name flags mode) w
      in case verdict_now w of
           Fault f \<Rightarrow> fail_with (errno_of f) w1
         | Proceed n \<Rightarrow>
             (case map_of (fdtab w1) dirfd of
                None \<Rightarrow> fail_with EBADF w1
              | Some (FileObj i off) \<Rightarrow> fail_with ENOTDIR w1
              | Some (DirObj d) \<Rightarrow>
                  if names_dir w1 d name then fail_with EISDIR w1
                  else
                  (case map_of (entries w1) (d, name) of
                     Some i \<Rightarrow>
                       install_fd (FileObj i 0)
                         (if flags AND O_TRUNC \<noteq> 0 then w1\<lparr>inodes := (inodes w1)(i := [])\<rparr>
                          else w1)
                   | None \<Rightarrow>
                       if flags AND O_CREAT \<noteq> 0
                       then install_fd (FileObj (fresh_inode w1) 0)
                              (w1\<lparr>entries := AList.update (d, name) (fresh_inode w1) (entries w1),
                                  inodes := (inodes w1)(fresh_inode w1 := [])\<rparr>)
                       else fail_with ENOENT w1)))"

text \<open>
  The contents of a file after \<open>chunk\<close> is written at offset \<open>off\<close>; writing past the
  end fills the gap with zero bytes, and writing nothing changes nothing.
\<close>

definition write_at :: "nat \<Rightarrow> string \<Rightarrow> string \<Rightarrow> string" where
  "write_at off chunk old =
     (if chunk = [] then old
      else take off (old @ replicate (off - length old) (CHR 0x00)) @ chunk
             @ drop (off + length chunk) old)"

text \<open>
  \<^verbatim>\<open>write(fd, buf, count)\<close>, with \<open>buf\<close> the \<open>count\<close> bytes offered: the kernel takes a
  prefix of them, as long as the environment allows, and reports its length.
\<close>

definition sys_write :: "fd_t \<Rightarrow> string \<Rightarrow> world \<Rightarrow> int \<times> world" where
  "sys_write fd buf w =
     (let w1 = log_event (EvWrite fd buf) w
      in case verdict_now w of
           Fault f \<Rightarrow> fail_with (errno_of f) w1
         | Proceed n \<Rightarrow>
             (case map_of (fdtab w1) fd of
                Some (FileObj i off) \<Rightarrow>
                  (let chunk = take n buf
                   in (int (length chunk),
                       w1\<lparr>inodes := (inodes w1)(i := write_at off chunk (inodes w1 i)),
                          fdtab := AList.update fd (FileObj i (off + length chunk)) (fdtab w1)\<rparr>))
              | _ \<Rightarrow> fail_with EBADF w1))"

text \<open>
  \<^verbatim>\<open>read(fd, buf, count)\<close>: returns the byte count and the bytes stored in the buffer.
  Zero is returned at the end of the file only; before it, at least one byte is read.
\<close>

definition sys_read :: "fd_t \<Rightarrow> nat \<Rightarrow> world \<Rightarrow> int \<times> string \<times> world" where
  "sys_read fd count w =
     (let w1 = log_event (EvRead fd count) w
      in case verdict_now w of
           Fault f \<Rightarrow> (let (r, w2) = fail_with (errno_of f) w1 in (r, [], w2))
         | Proceed n \<Rightarrow>
             (case map_of (fdtab w1) fd of
                None \<Rightarrow> (let (r, w2) = fail_with EBADF w1 in (r, [], w2))
              | Some (DirObj d) \<Rightarrow> (let (r, w2) = fail_with EISDIR w1 in (r, [], w2))
              | Some (FileObj i off) \<Rightarrow>
                  (let chunk = take (min count (max 1 n)) (drop off (inodes w1 i))
                   in (int (length chunk), chunk,
                       w1\<lparr>fdtab := AList.update fd (FileObj i (off + length chunk)) (fdtab w1)\<rparr>))))"

definition sys_fsync :: "fd_t \<Rightarrow> world \<Rightarrow> int \<times> world" where
  "sys_fsync fd w =
     (let w1 = log_event (EvFsync fd) w
      in case verdict_now w of
           Fault f \<Rightarrow> fail_with (errno_of f) w1
         | Proceed n \<Rightarrow>
             (case map_of (fdtab w1) fd of
                None \<Rightarrow> fail_with EBADF w1
              | Some obj \<Rightarrow> (0, w1)))"

text \<open>
  \<^verbatim>\<open>close(fd)\<close>: an open descriptor is released whether or not the call reports an error
  (as Linux does).
\<close>

definition sys_close :: "fd_t \<Rightarrow> world \<Rightarrow> int \<times> world" where
  "sys_close fd w =
     (let w1 = log_event (EvClose fd) w
      in case map_of (fdtab w1) fd of
           None \<Rightarrow> fail_with EBADF w1
         | Some obj \<Rightarrow>
             (let w2 = w1\<lparr>fdtab := AList.delete fd (fdtab w1)\<rparr>
              in case verdict_now w of
                   Fault f \<Rightarrow> fail_with (errno_of f) w2
                 | Proceed n \<Rightarrow> (0, w2)))"

text \<open>
  \<^verbatim>\<open>unlinkat(dirfd, name, 0)\<close>: a directory is refused with \<^verbatim>\<open>EISDIR\<close> (as Linux does),
  and \<^verbatim>\<open>ENOENT\<close> is reported exactly when the name stands for nothing in the directory.
\<close>

definition sys_unlinkat :: "fd_t \<Rightarrow> string \<Rightarrow> world \<Rightarrow> int \<times> world" where
  "sys_unlinkat dirfd name w =
     (let w1 = log_event (EvUnlinkat dirfd name) w
      in case verdict_now w of
           Fault f \<Rightarrow> fail_with (errno_of f) w1
         | Proceed n \<Rightarrow>
             (case map_of (fdtab w1) dirfd of
                None \<Rightarrow> fail_with EBADF w1
              | Some (FileObj i off) \<Rightarrow> fail_with ENOTDIR w1
              | Some (DirObj d) \<Rightarrow>
                  if names_dir w1 d name then fail_with EISDIR w1
                  else
                  (case map_of (entries w1) (d, name) of
                     None \<Rightarrow> fail_with ENOENT w1
                   | Some i \<Rightarrow> (0, w1\<lparr>entries := AList.delete (d, name) (entries w1)\<rparr>))))"

text \<open>
  \<^verbatim>\<open>renameat(olddirfd, old, newdirfd, new)\<close> of a file: the new name is bound to the inode
  of the old name and the old name is removed, in one step. When both names are already
  bound to the same inode nothing changes. The call is refused with \<^verbatim>\<open>EBUSY\<close> when the new
  name is \<^verbatim>\<open>.\<close>, \<^verbatim>\<open>..\<close> or \<^verbatim>\<open>/\<close>, and with \<^verbatim>\<open>EISDIR\<close> when it is a directory. (The old
  name is looked up among the files only: the program renames nothing but the file it has
  just written.)
\<close>

definition sys_renameat :: "fd_t \<Rightarrow> string \<Rightarrow> fd_t \<Rightarrow> string \<Rightarrow> world \<Rightarrow> int \<times> world" where
  "sys_renameat olddirfd old newdirfd new w =
     (let w1 = log_event (EvRenameat olddirfd old newdirfd new) w
      in case verdict_now w of
           Fault f \<Rightarrow> fail_with (errno_of f) w1
         | Proceed n \<Rightarrow>
             (case (map_of (fdtab w1) olddirfd, map_of (fdtab w1) newdirfd) of
                (Some (DirObj d1), Some (DirObj d2)) \<Rightarrow>
                  (case map_of (entries w1) (d1, old) of
                     None \<Rightarrow> fail_with ENOENT w1
                   | Some i \<Rightarrow>
                       if special_name new then fail_with EBUSY w1
                       else if names_dir w1 d2 new then fail_with EISDIR w1
                       else if map_of (entries w1) (d2, new) = Some i then (0, w1)
                       else (0, w1\<lparr>entries :=
                                    AList.update (d2, new) i
                                      (AList.delete (d1, old) (entries w1))\<rparr>))
              | (None, _) \<Rightarrow> fail_with EBADF w1
              | (_, None) \<Rightarrow> fail_with EBADF w1
              | _ \<Rightarrow> fail_with ENOTDIR w1))"

section \<open>The program: error messages\<close>

text \<open>
  A thrown \<^verbatim>\<open>std::system_error(code, std::system_category(), what)\<close> is a value: the
  error code and the message it was built with.
\<close>

record error =
  err_code :: int
  err_what :: string

definition system_error :: "int \<Rightarrow> string \<Rightarrow> error" where
  "system_error code what = \<lparr>err_code = code, err_what = what\<rparr>"

definition buildCommittedFileError ::
  "string \<Rightarrow> string \<Rightarrow> string \<Rightarrow> string \<Rightarrow> int \<Rightarrow> string" where
  \<open>buildCommittedFileError func dir file1 file2 err =
     func @ ''("'' @ dir
       @ (if file1 \<noteq> [] then slash # file1 else [])
       @ (if file2 \<noteq> [] then ''", "'' @ dir @ slash # file2 else [])
       @ ''"): '' @ strerror err\<close>

definition buildCommittedFileReadError :: "string \<Rightarrow> string \<Rightarrow> int \<Rightarrow> string" where
  \<open>buildCommittedFileReadError func fname err =
     func @ ''("'' @ fname @ ''") '' @ strerror err\<close>

section \<open>The program: descriptor handles\<close>

text \<open>
  \<^verbatim>\<open>BaseFd\<close> holds the directory, the file name and the descriptor; \<^verbatim>\<open>DirFd\<close> and
  \<^verbatim>\<open>WriteFd\<close> add no field. A member function that changes \<^verbatim>\<open>fd\<close> returns the changed
  object. An exception is the left summand of the result.
\<close>

record BaseFd =
  directory :: string
  "file" :: string
  fd :: int

text \<open>The destructor: the result of \<^verbatim>\<open>::close\<close> is ignored.\<close>

definition BaseFd_dtor :: "BaseFd \<Rightarrow> world \<Rightarrow> world" where
  "BaseFd_dtor this w = (if fd this \<ge> 0 then snd (sys_close (fd this) w) else w)"

definition BaseFd_sync :: "BaseFd \<Rightarrow> world \<Rightarrow> (error + unit) \<times> world" where
  "BaseFd_sync this w =
     (let (ret, w1) = sys_fsync (fd this) w
      in if ret = - 1
         then (Inl (system_error (errno w1)
                 (buildCommittedFileError ''fsync'' (directory this) (file this) [] (errno w1))), w1)
         else (Inr (), w1))"

definition BaseFd_close :: "BaseFd \<Rightarrow> world \<Rightarrow> (error + unit) \<times> BaseFd \<times> world" where
  "BaseFd_close this w =
     (if fd this \<ge> 0
      then (let copy = fd this;
                this1 = this\<lparr>fd := - 1\<rparr>;
                (ret, w1) = sys_close copy w
            in if ret = - 1
               then (Inl (system_error (errno w1)
                       (buildCommittedFileError ''close'' (directory this1) (file this1) []
                          (errno w1))), this1, w1)
               else (Inr (), this1, w1))
      else (Inr (), this, w))"

definition NO_FILE :: string where
  "NO_FILE = []"

text \<open>
  The constructors. When one throws, the \<^verbatim>\<open>BaseFd\<close> part is destroyed with \<^verbatim>\<open>fd = -1\<close>,
  which closes nothing; so the failing case returns the state as the system call left it.
\<close>

definition DirFd_ctor :: "string \<Rightarrow> world \<Rightarrow> (error + BaseFd) \<times> world" where
  "DirFd_ctor dir w =
     (let (r, w1) = sys_open dir (O_RDONLY OR O_CLOEXEC) w;
          this = \<lparr>directory = dir, file = NO_FILE, fd = r\<rparr>
      in if fd this = - 1
         then (Inl (system_error (errno w1)
                 (buildCommittedFileError ''open'' (directory this) [] [] (errno w1))), w1)
         else (Inr this, w1))"

definition DirFd_unlink :: "BaseFd \<Rightarrow> string \<Rightarrow> world \<Rightarrow> (error + unit) \<times> world" where
  "DirFd_unlink this fname w =
     (let (ret, w1) = sys_unlinkat (fd this) fname w
      in if ret = - 1 \<and> errno w1 \<noteq> ENOENT
         then (Inl (system_error (errno w1)
                 (buildCommittedFileError ''unlink'' (directory this) fname [] (errno w1))), w1)
         else (Inr (), w1))"

definition DirFd_renameFile ::
  "BaseFd \<Rightarrow> string \<Rightarrow> string \<Rightarrow> world \<Rightarrow> (error + unit) \<times> world" where
  "DirFd_renameFile this oldFile newFile w =
     (let (ret, w1) = sys_renameat (fd this) oldFile (fd this) newFile w
      in if ret = - 1
         then (Inl (system_error (errno w1)
                 (buildCommittedFileError ''rename'' (directory this) oldFile newFile
                    (errno w1))), w1)
         else (Inr (), w1))"

definition WriteFd_ctor :: "BaseFd \<Rightarrow> string \<Rightarrow> world \<Rightarrow> (error + BaseFd) \<times> world" where
  "WriteFd_ctor dirFd fname w =
     (let (r, w1) = sys_openat (fd dirFd) fname
                      (O_CREAT OR O_WRONLY OR O_TRUNC OR O_CLOEXEC)
                      (S_IRUSR OR S_IWUSR OR S_IRGRP OR S_IROTH) w;
          this = \<lparr>directory = directory dirFd, file = fname, fd = r\<rparr>
      in if fd this = - 1
         then (Inl (system_error (errno w1)
                 (buildCommittedFileError ''open'' (directory this) (file this) []
                    (errno w1))), w1)
         else (Inr this, w1))"

text \<open>
  The loop of \<^verbatim>\<open>WriteFd::writeAll\<close>. Each round offers the bytes from \<open>written\<close> up to
  \<open>size\<close>. Nothing in the code bounds the number of rounds (a \<^verbatim>\<open>write\<close> that reports 0
  bytes leaves \<open>written\<close> as it was), so not returning is the value \<open>None\<close>.
\<close>

partial_function (option) writeAll_loop ::
  "BaseFd \<Rightarrow> string \<Rightarrow> nat \<Rightarrow> nat \<Rightarrow> world \<Rightarrow> ((error + unit) \<times> world) option" where
  "writeAll_loop this data sz written w =
     (if written < sz
      then (case sys_write (fd this) (take (sz - written) (drop written data)) w of
              (ret, w1) \<Rightarrow>
                if ret < 0
                then Some (Inl (system_error (errno w1)
                             (buildCommittedFileError ''write'' (directory this) (file this) []
                                (errno w1))), w1)
                else writeAll_loop this data sz (written + nat ret) w1)
      else Some (Inr (), w))"

declare writeAll_loop.simps [code]

definition writeAll ::
  "BaseFd \<Rightarrow> string \<Rightarrow> nat \<Rightarrow> world \<Rightarrow> ((error + unit) \<times> world) option" where
  "writeAll this data sz w = writeAll_loop this data sz 0 w"

section \<open>The program: path split and reader\<close>

definition dirName :: "string \<Rightarrow> string" where
  "dirName filePath = posix_dirname filePath"

definition baseName :: "string \<Rightarrow> string" where
  "baseName filePath = posix_basename filePath"

text \<open>The file still to be read through a descriptor: the measure of the read loop.\<close>

definition unread :: "fd_t \<Rightarrow> world \<Rightarrow> nat" where
  "unread r w =
     (case map_of (fdtab w) r of
        Some (FileObj i off) \<Rightarrow> length (inodes w i) - off
      | _ \<Rightarrow> 0)"

text \<open>
  The loop of \<^verbatim>\<open>readFile\<close>: it returns the last value of \<^verbatim>\<open>len\<close> and the text collected
  in the stream.
\<close>

function read_loop :: "fd_t \<Rightarrow> string \<Rightarrow> world \<Rightarrow> int \<times> string \<times> world" where
  "read_loop r os w =
     (case sys_read r 4096 w of
        (len, buffer, w1) \<Rightarrow>
          if len > 0 then read_loop r (os @ take (nat len) buffer) w1
          else (len, os, w1))"
  by pat_completeness auto
termination
proof (relation "measure (\<lambda>(r, os, w). unread r w)")
  show "wf (measure (\<lambda>(r, os, w). unread r w))"
    by simp
next
  fix r :: fd_t and os :: string and w :: world and len :: int and rest :: "string \<times> world"
    and buffer :: string and w1 :: world
  assume "(len, rest) = sys_read r 4096 w" and "(buffer, w1) = rest" and "0 < len"
  then have "sys_read r 4096 w = (len, buffer, w1)" and "0 < len"
    by simp_all
  then have "unread r w1 < unread r w"
    by (auto simp: sys_read_def unread_def fail_with_def log_event_def Let_def update_conv
          min_def max_def split: verdict.splits option.splits fobj.splits if_splits)
  then show "((r, os @ take (nat len) buffer, w1), (r, os, w)) \<in> measure (\<lambda>(r, os, w). unread r w)"
    by simp
qed

declare read_loop.simps [simp del]

text \<open>\<^verbatim>\<open>readFile\<close>: \<^verbatim>\<open>errno\<close> is saved before the descriptor is closed.\<close>

definition readFile :: "string \<Rightarrow> world \<Rightarrow> (error + string) \<times> world" where
  "readFile filePath w =
     (let (r, w1) = sys_open filePath (O_RDONLY OR O_CLOEXEC) w
      in if r = - 1
         then (Inl (system_error (errno w1)
                 (buildCommittedFileReadError ''open'' filePath (errno w1))), w1)
         else (let (len, os, w2) = read_loop r [] w1;
                   savedErrno = errno w2;
                   (c, w3) = sys_close r w2
               in if len < 0
                  then (Inl (system_error savedErrno
                          (buildCommittedFileReadError ''read'' filePath savedErrno)), w3)
                  else (Inr os, w3)))"

section \<open>The program: the committed file\<close>

record CommittedFile =
  filePath :: string

text \<open>
  \<^verbatim>\<open>CommittedFile::cleanup\<close>. The handle \<^verbatim>\<open>dirFd\<close> is destroyed when the scope is left, by
  return or by exception.
\<close>

definition cleanup :: "CommittedFile \<Rightarrow> world \<Rightarrow> (error + unit) \<times> world" where
  "cleanup this w =
     (let dir = dirName (filePath this)
      in case DirFd_ctor dir w of
           (Inl e, w1) \<Rightarrow> (Inl e, w1)
         | (Inr dirFd, w1) \<Rightarrow>
             (let fileName = baseName (filePath this);
                  workFileName = fileName @ ''.work''
              in case DirFd_unlink dirFd workFileName w1 of
                   (Inl e, w2) \<Rightarrow> (Inl e, BaseFd_dtor dirFd w2)
                 | (Inr u, w2) \<Rightarrow>
                     (case BaseFd_close dirFd w2 of
                        (Inl e, dirFd1, w3) \<Rightarrow> (Inl e, BaseFd_dtor dirFd1 w3)
                      | (Inr u, dirFd1, w3) \<Rightarrow> (Inr (), BaseFd_dtor dirFd1 w3))))"

definition CommittedFile_ctor :: "string \<Rightarrow> world \<Rightarrow> (error + CommittedFile) \<times> world" where
  "CommittedFile_ctor path w =
     (let this = \<lparr>filePath = path\<rparr>
      in case cleanup this w of
           (Inl e, w1) \<Rightarrow> (Inl e, w1)
         | (Inr u, w1) \<Rightarrow> (Inr this, w1))"

text \<open>
  \<^verbatim>\<open>CommittedFile::write\<close>. The two handles are destroyed when the scope is left, the work
  file's first; a handle that was closed explicitly has \<^verbatim>\<open>fd = -1\<close> by then.
\<close>

definition CommittedFile_write ::
  "CommittedFile \<Rightarrow> string \<Rightarrow> world \<Rightarrow> ((error + unit) \<times> world) option" where
  "CommittedFile_write this data w =
     (case DirFd_ctor (dirName (filePath this)) w of
        (Inl e, w1) \<Rightarrow> Some (Inl e, w1)
      | (Inr dirFd, w1) \<Rightarrow>
          (let fileName = baseName (filePath this);
               workFileName = fileName @ ''.work''
           in case WriteFd_ctor dirFd workFileName w1 of
                (Inl e, w2) \<Rightarrow> Some (Inl e, BaseFd_dtor dirFd w2)
              | (Inr workFileFd, w2) \<Rightarrow>
                  (case writeAll workFileFd data (length data) w2 of
                     None \<Rightarrow> None
                   | Some (Inl e, w3) \<Rightarrow>
                       Some (Inl e, BaseFd_dtor dirFd (BaseFd_dtor workFileFd w3))
                   | Some (Inr u, w3) \<Rightarrow>
                       (case BaseFd_sync workFileFd w3 of
                          (Inl e, w4) \<Rightarrow>
                            Some (Inl e, BaseFd_dtor dirFd (BaseFd_dtor workFileFd w4))
                        | (Inr u, w4) \<Rightarrow>
                            (case BaseFd_close workFileFd w4 of
                               (Inl e, workFileFd1, w5) \<Rightarrow>
                                 Some (Inl e, BaseFd_dtor dirFd (BaseFd_dtor workFileFd1 w5))
                             | (Inr u, workFileFd1, w5) \<Rightarrow>
                                 (case DirFd_renameFile dirFd workFileName fileName w5 of
                                    (Inl e, w6) \<Rightarrow>
                                      Some (Inl e,
                                        BaseFd_dtor dirFd (BaseFd_dtor workFileFd1 w6))
                                  | (Inr u, w6) \<Rightarrow>
                                      (case BaseFd_sync dirFd w6 of
                                         (Inl e, w7) \<Rightarrow>
                                           Some (Inl e,
                                             BaseFd_dtor dirFd (BaseFd_dtor workFileFd1 w7))
                                       | (Inr u, w7) \<Rightarrow>
                                           (case BaseFd_close dirFd w7 of
                                              (Inl e, dirFd1, w8) \<Rightarrow>
                                                Some (Inl e,
                                                  BaseFd_dtor dirFd1
                                                    (BaseFd_dtor workFileFd1 w8))
                                            | (Inr u, dirFd1, w8) \<Rightarrow>
                                                Some (Inr (),
                                                  BaseFd_dtor dirFd1
                                                    (BaseFd_dtor workFileFd1 w8))))))))))"

definition CommittedFile_read :: "CommittedFile \<Rightarrow> world \<Rightarrow> (error + string) \<times> world" where
  "CommittedFile_read this w = readFile (filePath this) w"

definition getPath :: "CommittedFile \<Rightarrow> string" where
  "getPath this = filePath this"

section \<open>The program: the driver\<close>

text \<open>How the process ends: \<^verbatim>\<open>exit\<close> or return from \<^verbatim>\<open>main\<close>, or an uncaught exception.\<close>

datatype ending = Exited int | Terminated error

text \<open>\<^verbatim>\<open>getRandomData\<close>: the text of the current time.\<close>

definition getRandomData :: "world \<Rightarrow> string" where
  "getRandomData w = timestamps w (length (trace w))"

text \<open>The destructor of the elapsed time monitor prints one line.\<close>

definition ElapsedTimeMonitor_dtor :: "string \<Rightarrow> world \<Rightarrow> world" where
  "ElapsedTimeMonitor_dtor operation w = w\<lparr>stdout := stdout w @ [OutElapsed operation]\<rparr>"

definition usage :: "world \<Rightarrow> ending \<times> world" where
  "usage w = (Exited 0, w\<lparr>stdout := stdout w @ [OutLine ''Usage: fsynctest <filename> <count>'']\<rparr>)"

definition writeFile :: "string \<Rightarrow> world \<Rightarrow> ((error + unit) \<times> world) option" where
  "writeFile filename w =
     (let dummy = ''Write file''
      in case CommittedFile_ctor filename w of
           (Inl e, w1) \<Rightarrow> Some (Inl e, ElapsedTimeMonitor_dtor dummy w1)
         | (Inr cf, w1) \<Rightarrow>
             (case CommittedFile_write cf (getRandomData w1) w1 of
                None \<Rightarrow> None
              | Some (Inl e, w2) \<Rightarrow> Some (Inl e, ElapsedTimeMonitor_dtor dummy w2)
              | Some (Inr u, w2) \<Rightarrow> Some (Inr (), ElapsedTimeMonitor_dtor dummy w2)))"

text \<open>
  The loop of \<^verbatim>\<open>main\<close>. Nothing catches an exception of \<^verbatim>\<open>writeFile\<close>, so it ends the
  process.
\<close>

function main_loop :: "int \<Rightarrow> int \<Rightarrow> string \<Rightarrow> world \<Rightarrow> (ending \<times> world) option" where
  "main_loop i count filename w =
     (if i < count
      then (case writeFile filename w of
              None \<Rightarrow> None
            | Some (Inl e, w1) \<Rightarrow> Some (Terminated e, w1)
            | Some (Inr u, w1) \<Rightarrow> main_loop (i + 1) count filename w1)
      else Some (Exited 0, w))"
  by pat_completeness auto
termination
  by (relation "measure (\<lambda>(i, count, filename, w). nat (count - i))") auto

declare main_loop.simps [simp del]

text \<open>\<^verbatim>\<open>main\<close>, with \<^verbatim>\<open>argc\<close> the length of \<^verbatim>\<open>argv\<close>.\<close>

definition main :: "string list \<Rightarrow> world \<Rightarrow> (ending \<times> world) option" where
  "main argv w =
     (if int (length argv) \<noteq> 3 then Some (usage w)
      else (let filename = argv ! 1;
                count = atoi (argv ! 2)
            in if count < 1 then Some (usage w)
               else main_loop 0 count filename w))"

section \<open>Notions used to state the properties\<close>

text \<open>
  The life of a handle: a sequence of explicit calls by its owner, then its destruction.
  An exception of a call is caught by the owner, so the next call still happens.
\<close>

datatype handle_call = CallSync | CallClose

fun use_handle :: "handle_call list \<Rightarrow> BaseFd \<Rightarrow> world \<Rightarrow> BaseFd \<times> world" where
  "use_handle [] this w = (this, w)"
| "use_handle (CallSync # cs) this w = use_handle cs this (snd (BaseFd_sync this w))"
| "use_handle (CallClose # cs) this w =
     (case BaseFd_close this w of (r, this1, w1) \<Rightarrow> use_handle cs this1 w1)"

definition lifetime :: "handle_call list \<Rightarrow> BaseFd \<Rightarrow> world \<Rightarrow> world" where
  "lifetime cs this w = (case use_handle cs this w of (this1, w1) \<Rightarrow> BaseFd_dtor this1 w1)"

fun is_close :: "event \<Rightarrow> bool" where
  "is_close (EvClose r) = True"
| "is_close ev = False"

text \<open>
  Concrete states: a directory \<^verbatim>\<open>.\<close> holding a file \<^verbatim>\<open>f\<close> and a stale \<^verbatim>\<open>f.work\<close>, with an
  environment that lets every call proceed (moving at most 3 bytes per transfer), and
  the same state with descriptor 3 open on \<^verbatim>\<open>f.work\<close> and an environment that fails every
  call with \<^verbatim>\<open>EIO\<close>.
\<close>

definition demo_world :: world where
  "demo_world =
     \<lparr>dirs = [''.''],
      entries = [((''.'', ''f''), 1), ((''.'', ''f.work''), 2)],
      inodes = (\<lambda>i. if i = 1 then ''old'' else if i = 2 then ''garbage'' else []),
      fdtab = [],
      verdicts = (\<lambda>n. Proceed 3),
      trace = [],
      errno = 0,
      stdout = [],
      timestamps = (\<lambda>n. ''Fri Oct 30 19:41:00 2026'')\<rparr>"

definition demo_world_eio :: world where
  "demo_world_eio = demo_world\<lparr>fdtab := [(3, FileObj 2 0)], verdicts := (\<lambda>n. Fault EIO)\<rparr>"

definition demo_handle :: BaseFd where
  "demo_handle = \<lparr>directory = ''.'', file = ''f.work'', fd = 3\<rparr>"

definition env_kept :: "world \<Rightarrow> world \<Rightarrow> bool" where
  "env_kept w w1 =
     (dirs w1 = dirs w \<and> verdicts w1 = verdicts w \<and> stdout w1 = stdout w \<and>
      timestamps w1 = timestamps w)"

text \<open>The system calls logged between two states.\<close>

definition new_events :: "world \<Rightarrow> world \<Rightarrow> event list" where
  "new_events w w1 = drop (length (trace w)) (trace w1)"

definition create_flags :: flags_t where
  "create_flags = O_CREAT OR O_WRONLY OR O_TRUNC OR O_CLOEXEC"

definition mode_0644 :: mode_t where
  "mode_0644 = 0x1A4"

definition written_through :: "BaseFd \<Rightarrow> string \<Rightarrow> world \<Rightarrow> world \<Rightarrow> bool" where
  "written_through this chunk w w1 =
     ((chunk = [] \<and> inodes w1 = inodes w \<and> map_of (fdtab w1) = map_of (fdtab w)) \<or>
      (\<exists>i off. map_of (fdtab w) (fd this) = Some (FileObj i off) \<and>
         inodes w1 = (inodes w)(i := write_at off chunk (inodes w i)) \<and>
         map_of (fdtab w1) = (map_of (fdtab w))(fd this \<mapsto> FileObj i (off + length chunk))))"

definition write_error :: "BaseFd \<Rightarrow> world \<Rightarrow> error" where
  "write_error this w =
     system_error (errno w)
       (buildCommittedFileError ''write'' (directory this) (file this) [] (errno w))"

text \<open>
  The buffers that successive \<^verbatim>\<open>write\<close> calls offer when the calls before them reported
  \<open>n1\<close>, \<open>n2\<close>, ... bytes: each call offers what the reported bytes have left of the buffer.
\<close>

fun chunks :: "string \<Rightarrow> nat list \<Rightarrow> string list" where
  "chunks buf [] = []"
| "chunks buf (n # ns) = buf # chunks (drop n buf) ns"

text \<open>
  The calls at the indices \<open>t\<close>, \<open>t + 1\<close>, ... of the log are allowed by the environment and
  report \<open>ns\<close>: each is offered a buffer that is not empty and takes as many of its bytes as
  the verdict on the call allows.
\<close>

fun reported :: "(nat \<Rightarrow> verdict) \<Rightarrow> nat \<Rightarrow> string \<Rightarrow> nat list \<Rightarrow> bool" where
  "reported vs t buf [] = True"
| "reported vs t buf (n # ns) =
     (buf \<noteq> [] \<and>
      (case vs t of Proceed m \<Rightarrow> n = min m (length buf) | Fault f \<Rightarrow> False) \<and>
      reported vs (Suc t) (drop n buf) ns)"

text \<open>
  The \<^verbatim>\<open>write\<close> at index \<open>t\<close> of the log was refused: by the environment, with its error, or
  because the descriptor is not an open file.
\<close>

definition write_refused :: "BaseFd \<Rightarrow> nat \<Rightarrow> world \<Rightarrow> world \<Rightarrow> bool" where
  "write_refused this t w w1 =
     (case verdicts w t of
        Fault f \<Rightarrow> errno w1 = errno_of f
      | Proceed m \<Rightarrow>
          (\<forall>i off. map_of (fdtab w) (fd this) \<noteq> Some (FileObj i off)) \<and> errno w1 = EBADF)"

text \<open>What the write loop has done when it ends, started with \<open>written\<close> bytes behind it.\<close>

definition written_so_far ::
  "BaseFd \<Rightarrow> string \<Rightarrow> nat \<Rightarrow> world \<Rightarrow> (error + unit) \<times> world \<Rightarrow> bool" where
  "written_so_far this data written w y =
     (case y of (r, w1) \<Rightarrow>
        env_kept w w1 \<and> entries w1 = entries w \<and>
        (\<exists>ns. reported (verdicts w) (length (trace w)) (drop written data) ns \<and>
           written_through this (take (sum_list ns) (drop written data)) w w1 \<and>
           (case r of
              Inr u \<Rightarrow>
                sum_list ns = length data - written \<and>
                trace w1 = trace w @ map (EvWrite (fd this)) (chunks (drop written data) ns)
            | Inl e \<Rightarrow>
                sum_list ns < length data - written \<and>
                trace w1 = trace w @ map (EvWrite (fd this))
                  (chunks (drop written data) ns @ [drop (written + sum_list ns) data]) \<and>
                e = write_error this w1 \<and>
                write_refused this (length (trace w) + length ns) w w1)))"

datatype stage =
  AtOpenDir | AtCreate | AtWrite | AtFsyncFile | AtCloseFile | AtRename | AtFsyncDir
  | AtCloseDir | Done

definition commit_protocol :: "string \<Rightarrow> string \<Rightarrow> fd_t \<Rightarrow> fd_t \<Rightarrow> string list \<Rightarrow> event list" where
  "commit_protocol dir name d f bufs =
     [EvOpen dir (O_RDONLY OR O_CLOEXEC),
      EvOpenat d (name @ ''.work'') create_flags mode_0644]
     @ map (EvWrite f) bufs
     @ [EvFsync f, EvClose f, EvRenameat d (name @ ''.work'') d name, EvFsync d, EvClose d]"

fun steps_done :: "stage \<Rightarrow> nat \<Rightarrow> nat" where
  "steps_done AtOpenDir n = 1"
| "steps_done AtCreate n = 2"
| "steps_done AtWrite n = 2 + n"
| "steps_done AtFsyncFile n = 3 + n"
| "steps_done AtCloseFile n = 4 + n"
| "steps_done AtRename n = 5 + n"
| "steps_done AtFsyncDir n = 6 + n"
| "steps_done AtCloseDir n = 7 + n"
| "steps_done Done n = 7 + n"

fun cleanup_closes :: "stage \<Rightarrow> fd_t \<Rightarrow> fd_t \<Rightarrow> event list" where
  "cleanup_closes AtOpenDir d f = []"
| "cleanup_closes AtCreate d f = [EvClose d]"
| "cleanup_closes AtWrite d f = [EvClose f, EvClose d]"
| "cleanup_closes AtFsyncFile d f = [EvClose f, EvClose d]"
| "cleanup_closes AtCloseFile d f = [EvClose d]"
| "cleanup_closes AtRename d f = [EvClose d]"
| "cleanup_closes AtFsyncDir d f = [EvClose d]"
| "cleanup_closes AtCloseDir d f = []"
| "cleanup_closes Done d f = []"

definition exit_trace :: "stage \<Rightarrow> string \<Rightarrow> string \<Rightarrow> fd_t \<Rightarrow> fd_t \<Rightarrow> string list \<Rightarrow> event list" where
  "exit_trace s dir name d f bufs =
     take (steps_done s (length bufs)) (commit_protocol dir name d f bufs) @ cleanup_closes s d f"

fun message_at :: "stage \<Rightarrow> string \<Rightarrow> string \<Rightarrow> int \<Rightarrow> string" where
  "message_at AtOpenDir dir name c = buildCommittedFileError ''open'' dir [] [] c"
| "message_at AtCreate dir name c = buildCommittedFileError ''open'' dir (name @ ''.work'') [] c"
| "message_at AtWrite dir name c = buildCommittedFileError ''write'' dir (name @ ''.work'') [] c"
| "message_at AtFsyncFile dir name c = buildCommittedFileError ''fsync'' dir (name @ ''.work'') [] c"
| "message_at AtCloseFile dir name c = buildCommittedFileError ''close'' dir (name @ ''.work'') [] c"
| "message_at AtRename dir name c = buildCommittedFileError ''rename'' dir (name @ ''.work'') name c"
| "message_at AtFsyncDir dir name c = buildCommittedFileError ''fsync'' dir [] [] c"
| "message_at AtCloseDir dir name c = buildCommittedFileError ''close'' dir [] [] c"
| "message_at Done dir name c = []"

definition work_inode :: "string \<Rightarrow> string \<Rightarrow> nat \<Rightarrow> world \<Rightarrow> bool" where
  "work_inode dir name j w =
     (map_of (entries w) (dir, name @ ''.work'') = Some j \<or>
      (map_of (entries w) (dir, name @ ''.work'') = None \<and>
       (\<forall>k. map_of (entries w) k \<noteq> Some j)))"

definition staged :: "string \<Rightarrow> string \<Rightarrow> nat \<Rightarrow> string \<Rightarrow> world \<Rightarrow> world \<Rightarrow> bool" where
  "staged dir name j content w w1 =
     (work_inode dir name j w \<and>
      inodes w1 = (inodes w)(j := content) \<and>
      map_of (entries w1) = (map_of (entries w))((dir, name @ ''.work'') \<mapsto> j))"

definition committed :: "string \<Rightarrow> string \<Rightarrow> nat \<Rightarrow> string \<Rightarrow> world \<Rightarrow> world \<Rightarrow> bool" where
  "committed dir name j content w w1 =
     (work_inode dir name j w \<and>
      inodes w1 = (inodes w)(j := content) \<and>
      map_of (entries w1) =
        (if map_of (entries w) (dir, name) = Some j
         then (map_of (entries w))((dir, name @ ''.work'') \<mapsto> j)
         else (map_of (entries w))((dir, name @ ''.work'') := None, (dir, name) \<mapsto> j)))"

fun files_at ::
  "stage \<Rightarrow> string \<Rightarrow> string \<Rightarrow> nat \<Rightarrow> string \<Rightarrow> nat \<Rightarrow> world \<Rightarrow> world \<Rightarrow> bool" where
  "files_at AtOpenDir dir name j data k w w1 = (entries w1 = entries w \<and> inodes w1 = inodes w)"
| "files_at AtCreate dir name j data k w w1 = (entries w1 = entries w \<and> inodes w1 = inodes w)"
| "files_at AtWrite dir name j data k w w1 = staged dir name j (take k data) w w1"
| "files_at AtFsyncFile dir name j data k w w1 = staged dir name j data w w1"
| "files_at AtCloseFile dir name j data k w w1 = staged dir name j data w w1"
| "files_at AtRename dir name j data k w w1 = staged dir name j data w w1"
| "files_at AtFsyncDir dir name j data k w w1 = committed dir name j data w w1"
| "files_at AtCloseDir dir name j data k w w1 = committed dir name j data w w1"
| "files_at Done dir name j data k w w1 = committed dir name j data w w1"

definition faulted :: "world \<Rightarrow> world \<Rightarrow> bool" where
  "faulted w w1 =
     (\<exists>n f. length (trace w) \<le> n \<and> n < length (trace w1) \<and> verdicts w n = Fault f)"

text \<open>The environment lets the \<open>n\<close> calls from index \<open>t\<close> of the log proceed.\<close>

definition proceeds :: "world \<Rightarrow> nat \<Rightarrow> nat \<Rightarrow> bool" where
  "proceeds w t n = (\<forall>i < n. \<exists>m. verdicts w (t + i) = Proceed m)"

text \<open>
  The \<^verbatim>\<open>write\<close> calls of a \<^verbatim>\<open>write(data)\<close> that ends at stage \<open>s\<close>, when the calls that succeeded
  reported \<open>ns\<close>: at the stage of the writes the last call is the one that failed.
\<close>

definition calls :: "stage \<Rightarrow> string \<Rightarrow> nat list \<Rightarrow> string list" where
  "calls s data ns =
     (if s = AtWrite then chunks data ns @ [drop (sum_list ns) data] else chunks data ns)"

fun wrote :: "stage \<Rightarrow> string \<Rightarrow> nat list \<Rightarrow> bool" where
  "wrote AtOpenDir data ns = (ns = [])"
| "wrote AtCreate data ns = (ns = [])"
| "wrote AtWrite data ns = (sum_list ns < length data)"
| "wrote s data ns = (sum_list ns = length data)"

text \<open>
  Why the step of stage \<open>s\<close> fails with error code \<open>c\<close> in a state where the environment
  lets it proceed: the directory cannot be opened; what was opened as the directory is a
  file, or the name of the work file stands for a directory; the target stands for a
  directory. The other steps fail by the environment only.
\<close>

fun cause_at :: "stage \<Rightarrow> world \<Rightarrow> string \<Rightarrow> string \<Rightarrow> int \<Rightarrow> bool" where
  "cause_at AtOpenDir w dir name c = (lookup_path w dir = Inl c)"
| "cause_at AtCreate w dir name c =
     (case lookup_path w dir of
        Inr (FileObj i off) \<Rightarrow> c = ENOTDIR
      | Inr (DirObj d) \<Rightarrow> names_dir w dir (name @ ''.work'') \<and> c = EISDIR
      | Inl e \<Rightarrow> False)"
| "cause_at AtRename w dir name c =
     (dir \<in> set (dirs w) \<and>
      (if special_name name then c = EBUSY else names_dir w dir name \<and> c = EISDIR))"
| "cause_at s w dir name c = False"

definition failed_at :: "stage \<Rightarrow> world \<Rightarrow> string \<Rightarrow> string \<Rightarrow> nat \<Rightarrow> int \<Rightarrow> bool" where
  "failed_at s w dir name t c =
     (case verdicts w t of
        Fault f \<Rightarrow> c = errno_of f
      | Proceed m \<Rightarrow> cause_at s w dir name c)"

text \<open>
  The outcome of \<^verbatim>\<open>write(data)\<close> that ends at stage \<open>s\<close>: the descriptors are as before; the
  calls made are the protocol up to the step of the stage, then the closes of the handles
  still open; every call before the failing step was let through by the environment, and
  the writes offered the payload piece by piece; the files are as the stage leaves them;
  and the result is the error of the failing step, or success at the end.
\<close>

definition write_outcome ::
  "CommittedFile \<Rightarrow> string \<Rightarrow> world \<Rightarrow> stage \<Rightarrow> (error + unit) \<Rightarrow> world \<Rightarrow> bool" where
  "write_outcome this data w s r w1 =
     (let dir = dirName (filePath this); name = baseName (filePath this);
          t = length (trace w)
      in env_kept w w1 \<and> map_of (fdtab w1) = map_of (fdtab w) \<and>
         (\<exists>f ns j.
            trace w1 = trace w @ exit_trace s dir name (alloc_fd w) f (calls s data ns) \<and>
            reported (verdicts w) (t + 2) data ns \<and> wrote s data ns \<and>
            files_at s dir name j data (sum_list ns) w w1 \<and>
            (if s = Done
             then proceeds w t (steps_done s (length (calls s data ns))) \<and> r = Inr ()
             else proceeds w t (steps_done s (length (calls s data ns)) - 1) \<and>
                  (\<exists>c. r = Inl (system_error c (message_at s dir name c)) \<and>
                       failed_at s w dir name
                         (t + steps_done s (length (calls s data ns)) - 1) c))))"

text \<open>
  The \<^verbatim>\<open>read\<close> at index \<open>t\<close> of the log was refused: by the environment, with its error, or
  because the descriptor is a directory or is not open.
\<close>

definition read_refused :: "fd_t \<Rightarrow> nat \<Rightarrow> world \<Rightarrow> world \<Rightarrow> bool" where
  "read_refused r t w w1 =
     (case verdicts w t of
        Fault f \<Rightarrow> errno w1 = errno_of f
      | Proceed m \<Rightarrow>
          (case map_of (fdtab w) r of
             None \<Rightarrow> errno w1 = EBADF
           | Some (DirObj d) \<Rightarrow> errno w1 = EISDIR
           | Some (FileObj i off) \<Rightarrow> False))"

text \<open>
  What the read loop has done when it ends: calls of 4096 bytes, all let through but
  possibly the last, and on a file when there is more than one; the last one reports the
  end of the file, and then the rest of the file has been appended to the output, or it
  was refused.
\<close>

definition read_result ::
  "fd_t \<Rightarrow> string \<Rightarrow> world \<Rightarrow> int \<times> string \<times> world \<Rightarrow> bool" where
  "read_result r os w y =
     (case y of (len, os', w1) \<Rightarrow>
        env_kept w w1 \<and> entries w1 = entries w \<and> inodes w1 = inodes w \<and> len \<le> 0 \<and>
        (map_of (fdtab w1))(r := None) = (map_of (fdtab w))(r := None) \<and>
        (\<exists>n. trace w1 = trace w @ replicate (Suc n) (EvRead r 4096) \<and>
           proceeds w (length (trace w)) n \<and>
           (n = 0 \<or> (\<exists>i off. map_of (fdtab w) r = Some (FileObj i off))) \<and>
           (if len = 0
            then proceeds w (length (trace w)) (Suc n) \<and>
                 (\<exists>i off. map_of (fdtab w) r = Some (FileObj i off) \<and>
                    os' = os @ drop off (inodes w i))
            else read_refused r (length (trace w) + n) w w1)))"

definition read_only :: flags_t where
  "read_only = O_RDONLY OR O_CLOEXEC"

text \<open>The path names the file with this inode.\<close>

definition names_file :: "string \<Rightarrow> nat \<Rightarrow> world \<Rightarrow> bool" where
  "names_file path i w = (lookup_path w path = Inr (FileObj i 0))"

definition trailing_slash :: "string \<Rightarrow> bool" where
  "trailing_slash path = (path \<noteq> [] \<and> last path = slash)"

text \<open>
  The byte counts of successive \<^verbatim>\<open>read\<close> calls of 4096 bytes that find data, from the call at
  index \<open>t\<close> of the log on: each call is let through and delivers what the environment
  allows of the next 4096 bytes that are left, at least one byte.
\<close>

fun delivered :: "(nat \<Rightarrow> verdict) \<Rightarrow> nat \<Rightarrow> string \<Rightarrow> nat list \<Rightarrow> bool" where
  "delivered vs t rest [] = True"
| "delivered vs t rest (k # ks) =
     (0 < k \<and> (\<exists>m. vs t = Proceed m \<and> k = min (min 4096 (max 1 m)) (length rest)) \<and>
      delivered vs (Suc t) (drop k rest) ks)"

text \<open>
  The outcome of \<^verbatim>\<open>readFile(path)\<close>, by the verdicts of the environment on its calls. When
  the \<^verbatim>\<open>open\<close> fails nothing else is called. On a file, \<^verbatim>\<open>read\<close> calls of 4096 bytes deliver
  the contents chunk by chunk, one more \<^verbatim>\<open>read\<close> follows, and the descriptor is closed: that
  last \<^verbatim>\<open>read\<close> either is failed by the environment, whose error is the result whatever the
  \<^verbatim>\<open>close\<close> does, or finds the end of the file, and the result is the contents. Reading a
  directory fails at the first \<^verbatim>\<open>read\<close>.
\<close>

definition read_outcome :: "string \<Rightarrow> world \<Rightarrow> (error + string) \<Rightarrow> world \<Rightarrow> bool" where
  "read_outcome path w r w1 =
     (let t = length (trace w); fd = alloc_fd w
      in case verdicts w t of
           Fault f \<Rightarrow>
             new_events w w1 = [EvOpen path read_only] \<and>
             r = Inl (system_error (errno_of f)
                   (buildCommittedFileReadError ''open'' path (errno_of f)))
         | Proceed m \<Rightarrow>
             (case lookup_path w path of
                Inl c \<Rightarrow>
                  new_events w w1 = [EvOpen path read_only] \<and>
                  r = Inl (system_error c (buildCommittedFileReadError ''open'' path c))
              | Inr (DirObj d) \<Rightarrow>
                  new_events w w1 = [EvOpen path read_only, EvRead fd 4096, EvClose fd] \<and>
                  (case verdicts w (Suc t) of
                     Fault f \<Rightarrow>
                       r = Inl (system_error (errno_of f)
                             (buildCommittedFileReadError ''read'' path (errno_of f)))
                   | Proceed m' \<Rightarrow>
                       r = Inl (system_error EISDIR
                             (buildCommittedFileReadError ''read'' path EISDIR)))
              | Inr (FileObj i off) \<Rightarrow>
                  (\<exists>ns. new_events w w1 =
                          EvOpen path read_only #
                          replicate (Suc (length ns)) (EvRead fd 4096) @ [EvClose fd] \<and>
                        delivered (verdicts w) (Suc t) (inodes w i) ns \<and>
                        (case verdicts w (Suc t + length ns) of
                           Fault f \<Rightarrow>
                             r = Inl (system_error (errno_of f)
                                   (buildCommittedFileReadError ''read'' path (errno_of f)))
                         | Proceed m' \<Rightarrow>
                             sum_list ns = length (inodes w i) \<and> r = Inr (inodes w i)))))"

definition no_fault_from :: "world \<Rightarrow> bool" where
  "no_fault_from w = (\<forall>n \<ge> length (trace w). \<exists>m. verdicts w n = Proceed m)"

definition progress_from :: "world \<Rightarrow> bool" where
  "progress_from w = (\<forall>n \<ge> length (trace w). verdicts w n \<noteq> Proceed 0)"

fun is_rename :: "event \<Rightarrow> bool" where
  "is_rename (EvRenameat d1 old d2 new) = True"
| "is_rename ev = False"

fun is_write :: "event \<Rightarrow> bool" where
  "is_write (EvWrite r buf) = True"
| "is_write ev = False"

text \<open>
  The name of the work file is not another name of the target's inode.
\<close>

definition work_private :: "CommittedFile \<Rightarrow> world \<Rightarrow> bool" where
  "work_private this w =
     (\<forall>i. map_of (entries w) (dirName (filePath this), baseName (filePath this) @ ''.work'') = Some i
        \<longrightarrow> map_of (entries w) (dirName (filePath this), baseName (filePath this)) \<noteq> Some i)"

text \<open>
  The states in which a committed file object is in use: the state its constructor
  returned in, and every state that one of its operations ends in.
\<close>

inductive in_use :: "CommittedFile \<Rightarrow> world \<Rightarrow> bool" where
  constructed: "CommittedFile_ctor path w0 = (Inr this, w) \<Longrightarrow> in_use this w"
| written: "in_use this w \<Longrightarrow> CommittedFile_write this data w = Some (r, w1) \<Longrightarrow> in_use this w1"
| was_read: "in_use this w \<Longrightarrow> CommittedFile_read this w = (r, w1) \<Longrightarrow> in_use this w1"

definition demo_world_open :: world where
  "demo_world_open = demo_world\<lparr>fdtab := [(3, FileObj 2 0)]\<rparr>"

definition demo_world_enospc :: world where
  "demo_world_enospc = demo_world\<lparr>verdicts := (\<lambda>n. if n = 3 then Fault ENOSPC else Proceed 3)\<rparr>"

definition demo_file :: CommittedFile where
  "demo_file = \<lparr>filePath = ''f''\<rparr>"

definition demo_world_read_fails :: world where
  "demo_world_read_fails =
     demo_world\<lparr>verdicts := (\<lambda>n. if n = 1 then Fault EIO else if n = 2 then Fault EINTR
                                   else Proceed 3)\<rparr>"



section \<open>Descriptor and inode allocation\<close>

lemma lowest_free_ge: "n \<le> lowest_free used k n"
proof (induction k arbitrary: n)
  case 0
  show ?case by simp
next
  case (Suc k)
  from Suc [of "n + 1"] show ?case by simp
qed

lemma lowest_free_cases:
  "lowest_free used k n \<notin> set used \<or>
   (lowest_free used k n = n + int k \<and> (\<forall>m. n \<le> m \<and> m < n + int k \<longrightarrow> m \<in> set used))"
proof (induction k arbitrary: n)
  case 0
  show ?case by auto
next
  case (Suc k)
  show ?case
  proof (cases "n \<in> set used")
    case False
    then show ?thesis by simp
  next
    case True
    from Suc [of "n + 1"] show ?thesis
    proof
      assume "lowest_free used k (n + 1) \<notin> set used"
      with True show ?thesis by simp
    next
      assume a: "lowest_free used k (n + 1) = n + 1 + int k \<and>
        (\<forall>m. n + 1 \<le> m \<and> m < n + 1 + int k \<longrightarrow> m \<in> set used)"
      have "\<forall>m. n \<le> m \<and> m < n + int (Suc k) \<longrightarrow> m \<in> set used"
      proof (intro allI impI)
        fix m assume "n \<le> m \<and> m < n + int (Suc k)"
        then have "m = n \<or> (n + 1 \<le> m \<and> m < n + 1 + int k)" by auto
        with True a show "m \<in> set used" by auto
      qed
      with True a show ?thesis by simp
    qed
  qed
qed

lemma lowest_free_fresh: "lowest_free used (length used) 0 \<notin> set used"
proof -
  from lowest_free_cases [of used "length used" 0] show ?thesis
  proof
    assume "lowest_free used (length used) 0 \<notin> set used"
    then show ?thesis .
  next
    assume a: "lowest_free used (length used) 0 = 0 + int (length used) \<and>
      (\<forall>m. 0 \<le> m \<and> m < 0 + int (length used) \<longrightarrow> m \<in> set used)"
    then have sub: "int ` {0..<length used} \<subseteq> set used" by auto
    have "card (int ` {0..<length used}) = length used"
      by (simp add: card_image)
    moreover have "card (set used) \<le> length used"
      by (rule card_length)
    ultimately have "card (set used) \<le> card (int ` {0..<length used})" by simp
    with sub have eq: "int ` {0..<length used} = set used"
      by (intro card_seteq) simp_all
    have "int (length used) \<notin> int ` {0..<length used}" by auto
    with eq have "int (length used) \<notin> set used" by simp
    with a show ?thesis by simp
  qed
qed

lemma alloc_fd_fresh: "alloc_fd w \<notin> fst ` set (fdtab w)"
  using lowest_free_fresh [of "map fst (fdtab w)"] by (simp add: alloc_fd_def)

lemma alloc_fd_unbound: "map_of (fdtab w) (alloc_fd w) = None"
  using alloc_fd_fresh [of w] by (simp add: map_of_eq_None_iff)

lemma alloc_fd_nonneg: "0 \<le> alloc_fd w"
  using lowest_free_ge [of 0] by (simp add: alloc_fd_def)

lemma list_max_ge: "x \<in> set xs \<Longrightarrow> x \<le> list_max xs"
  by (induction xs) auto

lemma fresh_inode_entries: "map_of (entries w) k = Some i \<Longrightarrow> i \<noteq> fresh_inode w"
proof
  assume a: "map_of (entries w) k = Some i" and b: "i = fresh_inode w"
  from a have "(k, i) \<in> set (entries w)" by (rule map_of_SomeD)
  then have "i \<in> set (map snd (entries w) @ map (inode_of \<circ> snd) (fdtab w))" by force
  then have "i \<le> list_max (map snd (entries w) @ map (inode_of \<circ> snd) (fdtab w))"
    by (rule list_max_ge)
  with b show False by (simp add: fresh_inode_def)
qed

section \<open>The log of system calls\<close>

lemma sys_open_trace: "trace (snd (sys_open p fl w)) = trace w @ [EvOpen p fl]"
  by (simp add: sys_open_def install_fd_def fail_with_def log_event_def Let_def
        split: sum.splits verdict.splits)

lemma sys_openat_trace: "trace (snd (sys_openat d nm fl m w)) = trace w @ [EvOpenat d nm fl m]"
  by (simp add: sys_openat_def install_fd_def fail_with_def log_event_def Let_def
        split: option.splits verdict.splits fobj.splits)

lemma sys_write_trace: "trace (snd (sys_write r buf w)) = trace w @ [EvWrite r buf]"
  by (simp add: sys_write_def fail_with_def log_event_def Let_def
        split: option.splits verdict.splits fobj.splits)

lemma sys_read_trace: "trace (snd (snd (sys_read r c w))) = trace w @ [EvRead r c]"
  by (simp add: sys_read_def fail_with_def log_event_def Let_def
        split: option.splits verdict.splits fobj.splits)

lemma sys_fsync_trace: "trace (snd (sys_fsync r w)) = trace w @ [EvFsync r]"
  by (simp add: sys_fsync_def fail_with_def log_event_def Let_def
        split: option.splits verdict.splits)

lemma sys_close_trace: "trace (snd (sys_close r w)) = trace w @ [EvClose r]"
  by (simp add: sys_close_def fail_with_def log_event_def Let_def
        split: option.splits verdict.splits)

lemma sys_unlinkat_trace: "trace (snd (sys_unlinkat d nm w)) = trace w @ [EvUnlinkat d nm]"
  by (simp add: sys_unlinkat_def fail_with_def log_event_def Let_def
        split: option.splits verdict.splits fobj.splits)

lemma sys_renameat_trace:
  "trace (snd (sys_renameat d1 old d2 new w)) = trace w @ [EvRenameat d1 old d2 new]"
  by (simp add: sys_renameat_def fail_with_def log_event_def Let_def
        split: option.splits verdict.splits fobj.splits)

lemma BaseFd_sync_trace: "trace (snd (BaseFd_sync this w)) = trace w @ [EvFsync (fd this)]"
  using sys_fsync_trace [of "fd this" w]
  by (auto simp: BaseFd_sync_def split: prod.splits)

lemma BaseFd_dtor_trace:
  "trace (BaseFd_dtor this w) = (if 0 \<le> fd this then trace w @ [EvClose (fd this)] else trace w)"
  by (simp add: BaseFd_dtor_def sys_close_trace)

lemma BaseFd_close_trace:
  "BaseFd_close this w = (r, this1, w1) \<Longrightarrow>
     trace w1 = (if 0 \<le> fd this then trace w @ [EvClose (fd this)] else trace w)"
  using sys_close_trace [of "fd this" w]
  by (auto simp: BaseFd_close_def Let_def split: prod.splits if_splits)

lemma BaseFd_close_fd:
  "BaseFd_close this w = (r, this1, w1) \<Longrightarrow>
     this1 = (if 0 \<le> fd this then this\<lparr>fd := - 1\<rparr> else this)"
  by (auto simp: BaseFd_close_def Let_def split: prod.splits if_splits)

lemma use_handle_closed:
  "fd this < 0 \<Longrightarrow> use_handle cs this w = (this1, w1) \<Longrightarrow>
     this1 = this \<and> filter is_close (trace w1) = filter is_close (trace w)"
proof (induction cs this w rule: use_handle.induct)
  case (1 this w)
  then show ?case by simp
next
  case (2 cs this w)
  then show ?case by (simp add: BaseFd_sync_trace)
next
  case (3 cs this w)
  obtain r this2 w2 where c: "BaseFd_close this w = (r, this2, w2)"
    by (cases "BaseFd_close this w") auto
  with 3 show ?case
    using BaseFd_close_trace [OF c] BaseFd_close_fd [OF c] by simp
qed

lemma use_handle_open:
  "0 \<le> fd this \<Longrightarrow> use_handle cs this w = (this1, w1) \<Longrightarrow>
     (this1 = this \<and> filter is_close (trace w1) = filter is_close (trace w)) \<or>
     (this1 = this\<lparr>fd := - 1\<rparr> \<and>
      filter is_close (trace w1) = filter is_close (trace w) @ [EvClose (fd this)])"
proof (induction cs this w rule: use_handle.induct)
  case (1 this w)
  then show ?case by simp
next
  case (2 cs this w)
  then show ?case by (simp add: BaseFd_sync_trace)
next
  case (3 cs this w)
  obtain r this2 w2 where c: "BaseFd_close this w = (r, this2, w2)"
    by (cases "BaseFd_close this w") auto
  from 3 c have u: "use_handle cs this2 w2 = (this1, w1)" by simp
  from 3 BaseFd_close_fd [OF c] have t2: "this2 = this\<lparr>fd := - 1\<rparr>" by simp
  from 3 BaseFd_close_trace [OF c] have tr: "trace w2 = trace w @ [EvClose (fd this)]" by simp
  from t2 have "fd this2 < 0" by simp
  from use_handle_closed [OF this u] t2 tr show ?case by simp
qed

section \<open>Descriptor hygiene\<close>

text \<open>
  C5. Whatever explicit calls are made on a handle that owns a descriptor, by the end of
  its life exactly one \<^verbatim>\<open>close\<close> system call has been made, and it is on that descriptor.
  After an explicit \<^verbatim>\<open>close()\<close> (whether it reported an error or not) a second \<^verbatim>\<open>close()\<close>
  and the destructor change nothing. When the \<^verbatim>\<open>close\<close> system call fails, the explicit
  \<^verbatim>\<open>close()\<close> throws the error of that call, and the destructor reaches the same state
  without reporting anything.
\<close>

theorem descriptor_closed_exactly_once:
  "(0 \<le> fd this \<longrightarrow>
      filter is_close (trace (lifetime cs this w))
        = filter is_close (trace w) @ [EvClose (fd this)]) \<and>
   (\<forall>r this1 w1. BaseFd_close this w = (r, this1, w1) \<longrightarrow>
      BaseFd_close this1 w1 = (Inr (), this1, w1) \<and> BaseFd_dtor this1 w1 = w1) \<and>
   (0 \<le> fd this \<and> fst (sys_close (fd this) w) = - 1 \<longrightarrow>
      (\<exists>w1. BaseFd_close this w =
         (Inl (system_error (errno w1)
            (buildCommittedFileError ''close'' (directory this) (file this) [] (errno w1))),
          this\<lparr>fd := - 1\<rparr>, w1) \<and>
        BaseFd_dtor this w = w1))"
proof (intro conjI impI allI)
  assume open_fd: "0 \<le> fd this"
  obtain this1 w1 where u: "use_handle cs this w = (this1, w1)"
    by (cases "use_handle cs this w") auto
  from use_handle_open [OF open_fd u] u open_fd
  show "filter is_close (trace (lifetime cs this w))
          = filter is_close (trace w) @ [EvClose (fd this)]"
    by (auto simp: lifetime_def BaseFd_dtor_trace)
next
  fix r this1 w1
  assume c: "BaseFd_close this w = (r, this1, w1)"
  from BaseFd_close_fd [OF c] have "fd this1 < 0 \<or> this1 = this \<and> fd this < 0"
    by (auto split: if_splits)
  then have neg: "fd this1 < 0" by auto
  then show "BaseFd_close this1 w1 = (Inr (), this1, w1)"
    by (simp add: BaseFd_close_def)
  from neg show "BaseFd_dtor this1 w1 = w1"
    by (simp add: BaseFd_dtor_def)
next
  assume "0 \<le> fd this \<and> fst (sys_close (fd this) w) = - 1"
  then show "\<exists>w1. BaseFd_close this w =
         (Inl (system_error (errno w1)
            (buildCommittedFileError ''close'' (directory this) (file this) [] (errno w1))),
          this\<lparr>fd := - 1\<rparr>, w1) \<and>
        BaseFd_dtor this w = w1"
    by (auto simp: BaseFd_close_def BaseFd_dtor_def Let_def split: prod.splits)
qed

theorem descriptor_closed_exactly_once_witness:
  \<open>0 \<le> fd demo_handle \<and> fst (sys_close (fd demo_handle) demo_world_eio) = - 1 \<and>
   filter is_close (trace (lifetime [CallClose, CallSync, CallClose] demo_handle demo_world_eio))
     = [EvClose 3] \<and>
   (\<exists>w1. BaseFd_close demo_handle demo_world_eio =
      (Inl (system_error 5 ''close("./f.work"): Input/output error''),
       demo_handle\<lparr>fd := - 1\<rparr>, w1) \<and>
      BaseFd_close (demo_handle\<lparr>fd := - 1\<rparr>) w1 = (Inr (), demo_handle\<lparr>fd := - 1\<rparr>, w1) \<and>
      BaseFd_dtor (demo_handle\<lparr>fd := - 1\<rparr>) w1 = w1 \<and>
      BaseFd_dtor demo_handle demo_world_eio = w1)\<close>
proof -
  have h1: "0 \<le> fd demo_handle"
    by (simp add: demo_handle_def)
  have h2: "fst (sys_close (fd demo_handle) demo_world_eio) = - 1"
    by (simp add: demo_handle_def demo_world_eio_def demo_world_def sys_close_def
          verdict_now_def log_event_def fail_with_def)
  have h3: "filter is_close (trace demo_world_eio) = []"
    by (simp add: demo_world_eio_def demo_world_def)
  have h4: "errno (BaseFd_dtor demo_handle demo_world_eio) = 5"
    by (simp add: demo_handle_def demo_world_eio_def demo_world_def sys_close_def
          verdict_now_def log_event_def fail_with_def BaseFd_dtor_def errno_of_def)
  have h5: \<open>buildCommittedFileError ''close'' (directory demo_handle) (file demo_handle) [] 5
              = ''close("./f.work"): Input/output error''\<close>
    by (simp add: buildCommittedFileError_def demo_handle_def slash_def strerror_def)
  from descriptor_closed_exactly_once
         [of demo_handle "[CallClose, CallSync, CallClose]" demo_world_eio] h1 h2
  obtain w1 where
    a: "filter is_close (trace (lifetime [CallClose, CallSync, CallClose] demo_handle demo_world_eio))
          = filter is_close (trace demo_world_eio) @ [EvClose (fd demo_handle)]" and
    b: "BaseFd_close demo_handle demo_world_eio =
         (Inl (system_error (errno w1)
            (buildCommittedFileError ''close'' (directory demo_handle) (file demo_handle) []
               (errno w1))),
          demo_handle\<lparr>fd := - 1\<rparr>, w1)" and
    c: "BaseFd_dtor demo_handle demo_world_eio = w1" and
    d: "\<forall>r this1 w1. BaseFd_close demo_handle demo_world_eio = (r, this1, w1) \<longrightarrow>
          BaseFd_close this1 w1 = (Inr (), this1, w1) \<and> BaseFd_dtor this1 w1 = w1"
    by blast
  from c h4 have e: "errno w1 = 5" by simp
  from d b have f: "BaseFd_close (demo_handle\<lparr>fd := - 1\<rparr>) w1 = (Inr (), demo_handle\<lparr>fd := - 1\<rparr>, w1)
      \<and> BaseFd_dtor (demo_handle\<lparr>fd := - 1\<rparr>) w1 = w1"
    by blast
  from a h3 have g: "filter is_close (trace (lifetime [CallClose, CallSync, CallClose] demo_handle demo_world_eio))
     = [EvClose 3]"
    by (simp add: demo_handle_def)
  from h1 h2 g b c e f h5 show ?thesis
    by auto
qed

section \<open>The form of the error messages\<close>

text \<open>
  C8. The messages of the commit protocol have the form
  \<^verbatim>\<open>op("<dir>[/<f1>]"[, "<dir>/<f2>"]): <strerror(errno)>\<close>. The claim says the same of the
  reader's messages; the reader's builder puts one blank, and no colon, between the closing
  parenthesis and the error text. Reading the missing file \<^verbatim>\<open>g\<close> reports
  \<^verbatim>\<open>open("g") No such file or directory\<close>, where the builder of the commit protocol gives
  \<^verbatim>\<open>open("g"): No such file or directory\<close> for the same operands.
\<close>

theorem reader_error_message_lacks_colon:
  \<open>fst (readFile ''g'' demo_world)
     = Inl (system_error 2 ''open("g") No such file or directory'') \<and>
   buildCommittedFileError ''open'' ''g'' [] [] 2 = ''open("g"): No such file or directory''\<close>
  by (simp add: readFile_def sys_open_def lookup_path_def names_dir_def special_name_def
        demo_world_def verdict_now_def log_event_def
        fail_with_def posix_dirname_def posix_basename_def strip_trailing_slashes_def
        slash_def ENOENT_def buildCommittedFileReadError_def buildCommittedFileError_def
        strerror_def)

section \<open>Paths\<close>

lemma posix_dirname_nonempty: "posix_dirname p \<noteq> []"
  by (simp add: posix_dirname_def Let_def)

lemma dirName_nonempty: "dirName p \<noteq> []"
  by (simp add: dirName_def posix_dirname_nonempty)

lemma names_dir_kept: "dirs w1 = dirs w \<Longrightarrow> names_dir w1 d n = names_dir w d n"
  by (simp add: names_dir_def)

lemma lookup_path_kept:
  "dirs w1 = dirs w \<Longrightarrow> entries w1 = entries w \<Longrightarrow> lookup_path w1 p = lookup_path w p"
  by (simp add: lookup_path_def names_dir_def)

lemma lookup_dir: "p \<noteq> [] \<Longrightarrow> p \<in> set (dirs w) \<Longrightarrow> lookup_path w p = Inr (DirObj p)"
  by (simp add: lookup_path_def)

lemma lookup_path_DirObj:
  "lookup_path w p = Inr (DirObj d) \<Longrightarrow> d = p \<and> p \<in> set (dirs w) \<and> p \<noteq> []"
  by (auto simp: lookup_path_def split: if_splits option.splits)

lemma lookup_path_FileObj:
  "lookup_path w p = Inr (FileObj i off) \<Longrightarrow>
     off = 0 \<and> p \<notin> set (dirs w) \<and> posix_dirname p \<in> set (dirs w) \<and>
     \<not> names_dir w (posix_dirname p) (posix_basename p) \<and>
     map_of (entries w) (posix_dirname p, posix_basename p) = Some i \<and> \<not> trailing_slash p"
  by (auto simp: lookup_path_def trailing_slash_def split: if_splits option.splits)

lemma lookup_file:
  assumes "posix_dirname p \<in> set (dirs w)"
    and "\<not> names_dir w (posix_dirname p) (posix_basename p)"
    and "map_of (entries w) (posix_dirname p, posix_basename p) = Some i"
    and "\<not> trailing_slash p"
  shows "lookup_path w p = Inr (FileObj i 0)"
proof -
  from assms(2) have ne: "p \<noteq> []"
    by (auto simp: names_dir_def special_name_def posix_basename_def)
  from assms(2) have "p \<notin> set (dirs w)"
    by (auto simp: names_dir_def)
  with ne assms show ?thesis
    by (simp add: lookup_path_def trailing_slash_def)
qed

section \<open>The effect of each system call\<close>

lemma env_kept_refl: "env_kept w w"
  by (simp add: env_kept_def)

lemma env_kept_trans: "env_kept w w1 \<Longrightarrow> env_kept w1 w2 \<Longrightarrow> env_kept w w2"
  by (simp add: env_kept_def)

lemmas kernel_defs = fail_with_def log_event_def Let_def env_kept_def install_fd_def

lemma sys_open_effect:
  assumes "sys_open path fl w = (r, w1)"
  shows "trace w1 = trace w @ [EvOpen path fl]"
    and "env_kept w w1"
    and "entries w1 = entries w"
    and "inodes w1 = inodes w"
    and "r = - 1 \<Longrightarrow> fdtab w1 = fdtab w \<and>
           (case verdict_now w of
              Fault f \<Rightarrow> errno w1 = errno_of f
            | Proceed n \<Rightarrow> lookup_path w path = Inl (errno w1))"
    and "r \<noteq> - 1 \<Longrightarrow> r = alloc_fd w \<and> (\<exists>n. verdict_now w = Proceed n) \<and>
           (\<exists>obj. lookup_path w path = Inr obj \<and> fdtab w1 = (alloc_fd w, obj) # fdtab w \<and>
              errno w1 = errno w)"
proof -
  from assms have r: "r = fst (sys_open path fl w)" and w1: "w1 = snd (sys_open path fl w)"
    by simp_all
  have nonneg: "alloc_fd w \<noteq> - 1"
    using alloc_fd_nonneg [of w] by simp
  have look: "lookup_path (w\<lparr>trace := trace w @ [EvOpen path fl]\<rparr>) path = lookup_path w path"
    by (rule lookup_path_kept) simp_all
  show "trace w1 = trace w @ [EvOpen path fl]"
    unfolding w1 by (rule sys_open_trace)
  show "env_kept w w1"
    unfolding w1 by (simp add: sys_open_def kernel_defs split: sum.splits verdict.splits)
  show "entries w1 = entries w"
    unfolding w1 by (simp add: sys_open_def kernel_defs split: sum.splits verdict.splits)
  show "inodes w1 = inodes w"
    unfolding w1 by (simp add: sys_open_def kernel_defs split: sum.splits verdict.splits)
  show "r = - 1 \<Longrightarrow> fdtab w1 = fdtab w \<and>
           (case verdict_now w of
              Fault f \<Rightarrow> errno w1 = errno_of f
            | Proceed n \<Rightarrow> lookup_path w path = Inl (errno w1))"
    unfolding w1 r using nonneg
    by (auto simp: sys_open_def kernel_defs look alloc_fd_def split: sum.splits verdict.splits)
  show "r \<noteq> - 1 \<Longrightarrow> r = alloc_fd w \<and> (\<exists>n. verdict_now w = Proceed n) \<and>
           (\<exists>obj. lookup_path w path = Inr obj \<and> fdtab w1 = (alloc_fd w, obj) # fdtab w \<and>
              errno w1 = errno w)"
    unfolding w1 r
    by (auto simp: sys_open_def kernel_defs look alloc_fd_def split: sum.splits verdict.splits)
qed

lemma sys_openat_effect:
  assumes "sys_openat d nm fl m w = (r, w1)"
  shows "trace w1 = trace w @ [EvOpenat d nm fl m]"
    and "env_kept w w1"
    and "r = - 1 \<Longrightarrow> fdtab w1 = fdtab w \<and> entries w1 = entries w \<and> inodes w1 = inodes w \<and>
           (case verdict_now w of
              Fault f \<Rightarrow> errno w1 = errno_of f
            | Proceed n \<Rightarrow>
                (case map_of (fdtab w) d of
                   None \<Rightarrow> errno w1 = EBADF
                 | Some (FileObj i off) \<Rightarrow> errno w1 = ENOTDIR
                 | Some (DirObj dir) \<Rightarrow>
                     if names_dir w dir nm then errno w1 = EISDIR
                     else fl AND O_CREAT = 0 \<and> errno w1 = ENOENT))"
    and "r \<noteq> - 1 \<Longrightarrow> r = alloc_fd w \<and> (\<exists>n. verdict_now w = Proceed n) \<and>
           (\<exists>dir i. map_of (fdtab w) d = Some (DirObj dir) \<and> \<not> names_dir w dir nm \<and>
              fdtab w1 = (alloc_fd w, FileObj i 0) # fdtab w \<and>
              map_of (entries w1) (dir, nm) = Some i \<and>
              (case map_of (entries w) (dir, nm) of
                 Some i0 \<Rightarrow> i = i0 \<and> entries w1 = entries w \<and>
                   inodes w1 = (if fl AND O_TRUNC \<noteq> 0 then (inodes w)(i := []) else inodes w)
               | None \<Rightarrow> i = fresh_inode w \<and> fl AND O_CREAT \<noteq> 0 \<and>
                   entries w1 = AList.update (dir, nm) i (entries w) \<and>
                   inodes w1 = (inodes w)(i := [])))"
proof -
  from assms have r: "r = fst (sys_openat d nm fl m w)"
    and w1: "w1 = snd (sys_openat d nm fl m w)"
    by simp_all
  have nonneg: "alloc_fd w \<noteq> - 1"
    using alloc_fd_nonneg [of w] by simp
  have nd: "\<And>dir. names_dir (w\<lparr>trace := trace w @ [EvOpenat d nm fl m]\<rparr>) dir nm = names_dir w dir nm"
    by (rule names_dir_kept) simp
  show "trace w1 = trace w @ [EvOpenat d nm fl m]"
    unfolding w1 by (rule sys_openat_trace)
  show "env_kept w w1"
    unfolding w1
    by (simp add: sys_openat_def kernel_defs split: option.splits verdict.splits fobj.splits)
  show "r = - 1 \<Longrightarrow> fdtab w1 = fdtab w \<and> entries w1 = entries w \<and> inodes w1 = inodes w \<and>
           (case verdict_now w of
              Fault f \<Rightarrow> errno w1 = errno_of f
            | Proceed n \<Rightarrow>
                (case map_of (fdtab w) d of
                   None \<Rightarrow> errno w1 = EBADF
                 | Some (FileObj i off) \<Rightarrow> errno w1 = ENOTDIR
                 | Some (DirObj dir) \<Rightarrow>
                     if names_dir w dir nm then errno w1 = EISDIR
                     else fl AND O_CREAT = 0 \<and> errno w1 = ENOENT))"
    unfolding w1 r using nonneg
    by (auto simp: sys_openat_def kernel_defs nd alloc_fd_def
          split: option.splits verdict.splits fobj.splits if_splits)
  show "r \<noteq> - 1 \<Longrightarrow> r = alloc_fd w \<and> (\<exists>n. verdict_now w = Proceed n) \<and>
           (\<exists>dir i. map_of (fdtab w) d = Some (DirObj dir) \<and> \<not> names_dir w dir nm \<and>
              fdtab w1 = (alloc_fd w, FileObj i 0) # fdtab w \<and>
              map_of (entries w1) (dir, nm) = Some i \<and>
              (case map_of (entries w) (dir, nm) of
                 Some i0 \<Rightarrow> i = i0 \<and> entries w1 = entries w \<and>
                   inodes w1 = (if fl AND O_TRUNC \<noteq> 0 then (inodes w)(i := []) else inodes w)
               | None \<Rightarrow> i = fresh_inode w \<and> fl AND O_CREAT \<noteq> 0 \<and>
                   entries w1 = AList.update (dir, nm) i (entries w) \<and>
                   inodes w1 = (inodes w)(i := [])))"
    unfolding w1 r
    by (auto simp: sys_openat_def kernel_defs nd alloc_fd_def fresh_inode_def update_conv
          split: option.splits verdict.splits fobj.splits if_splits)
qed

lemma sys_write_effect:
  assumes "sys_write r buf w = (ret, w1)"
  shows "trace w1 = trace w @ [EvWrite r buf]"
    and "env_kept w w1"
    and "entries w1 = entries w"
    and "ret < 0 \<Longrightarrow> fdtab w1 = fdtab w \<and> inodes w1 = inodes w \<and>
           (case verdict_now w of
              Fault f \<Rightarrow> errno w1 = errno_of f
            | Proceed n \<Rightarrow>
                (\<forall>i off. map_of (fdtab w) r \<noteq> Some (FileObj i off)) \<and> errno w1 = EBADF)"
    and "0 \<le> ret \<Longrightarrow>
           (\<exists>i off n. map_of (fdtab w) r = Some (FileObj i off) \<and>
              verdict_now w = Proceed n \<and> nat ret = min n (length buf) \<and>
              inodes w1 = (inodes w)(i := write_at off (take (nat ret) buf) (inodes w i)) \<and>
              map_of (fdtab w1) = (map_of (fdtab w))(r \<mapsto> FileObj i (off + nat ret)))"
proof -
  from assms have r: "ret = fst (sys_write r buf w)" and w1: "w1 = snd (sys_write r buf w)"
    by simp_all
  show "trace w1 = trace w @ [EvWrite r buf]"
    unfolding w1 by (rule sys_write_trace)
  show "env_kept w w1"
    unfolding w1
    by (simp add: sys_write_def kernel_defs split: option.splits verdict.splits fobj.splits)
  show "entries w1 = entries w"
    unfolding w1
    by (simp add: sys_write_def kernel_defs split: option.splits verdict.splits fobj.splits)
  show "ret < 0 \<Longrightarrow> fdtab w1 = fdtab w \<and> inodes w1 = inodes w \<and>
           (case verdict_now w of
              Fault f \<Rightarrow> errno w1 = errno_of f
            | Proceed n \<Rightarrow>
                (\<forall>i off. map_of (fdtab w) r \<noteq> Some (FileObj i off)) \<and> errno w1 = EBADF)"
    unfolding w1 r
    by (auto simp: sys_write_def kernel_defs split: option.splits verdict.splits fobj.splits if_splits)
  show "0 \<le> ret \<Longrightarrow>
           (\<exists>i off n. map_of (fdtab w) r = Some (FileObj i off) \<and>
              verdict_now w = Proceed n \<and> nat ret = min n (length buf) \<and>
              inodes w1 = (inodes w)(i := write_at off (take (nat ret) buf) (inodes w i)) \<and>
              map_of (fdtab w1) = (map_of (fdtab w))(r \<mapsto> FileObj i (off + nat ret)))"
    unfolding w1 r
    by (auto simp: sys_write_def kernel_defs update_conv' min_def
          split: option.splits verdict.splits fobj.splits if_splits)
qed

lemma sys_fsync_effect:
  assumes "sys_fsync r w = (ret, w1)"
  shows "trace w1 = trace w @ [EvFsync r]"
    and "env_kept w w1"
    and "entries w1 = entries w"
    and "inodes w1 = inodes w"
    and "fdtab w1 = fdtab w"
    and "ret = - 1 \<Longrightarrow>
           (case verdict_now w of
              Fault f \<Rightarrow> errno w1 = errno_of f
            | Proceed n \<Rightarrow> map_of (fdtab w) r = None \<and> errno w1 = EBADF)"
    and "ret \<noteq> - 1 \<Longrightarrow> (\<exists>n. verdict_now w = Proceed n)"
proof -
  from assms have r: "ret = fst (sys_fsync r w)" and w1: "w1 = snd (sys_fsync r w)"
    by simp_all
  show "trace w1 = trace w @ [EvFsync r]"
    unfolding w1 by (rule sys_fsync_trace)
  show "env_kept w w1"
    unfolding w1 by (simp add: sys_fsync_def kernel_defs split: option.splits verdict.splits)
  show "entries w1 = entries w"
    unfolding w1 by (simp add: sys_fsync_def kernel_defs split: option.splits verdict.splits)
  show "inodes w1 = inodes w"
    unfolding w1 by (simp add: sys_fsync_def kernel_defs split: option.splits verdict.splits)
  show "fdtab w1 = fdtab w"
    unfolding w1 by (simp add: sys_fsync_def kernel_defs split: option.splits verdict.splits)
  show "ret = - 1 \<Longrightarrow>
           (case verdict_now w of
              Fault f \<Rightarrow> errno w1 = errno_of f
            | Proceed n \<Rightarrow> map_of (fdtab w) r = None \<and> errno w1 = EBADF)"
    unfolding w1 r
    by (auto simp: sys_fsync_def kernel_defs split: option.splits verdict.splits)
  show "ret \<noteq> - 1 \<Longrightarrow> (\<exists>n. verdict_now w = Proceed n)"
    unfolding r
    by (auto simp: sys_fsync_def kernel_defs split: option.splits verdict.splits)
qed

lemma sys_close_effect:
  assumes "sys_close r w = (ret, w1)"
  shows "trace w1 = trace w @ [EvClose r]"
    and "env_kept w w1"
    and "entries w1 = entries w"
    and "inodes w1 = inodes w"
    and "fdtab w1 = AList.delete r (fdtab w)"
    and "ret = - 1 \<Longrightarrow> map_of (fdtab w) r \<noteq> None \<Longrightarrow>
           (\<exists>f. verdict_now w = Fault f \<and> errno w1 = errno_of f)"
    and "ret \<noteq> - 1 \<Longrightarrow> (\<exists>n. verdict_now w = Proceed n)"
proof -
  from assms have r: "ret = fst (sys_close r w)" and w1: "w1 = snd (sys_close r w)"
    by simp_all
  show "trace w1 = trace w @ [EvClose r]"
    unfolding w1 by (rule sys_close_trace)
  show "env_kept w w1"
    unfolding w1 by (simp add: sys_close_def kernel_defs split: option.splits verdict.splits)
  show "entries w1 = entries w"
    unfolding w1 by (simp add: sys_close_def kernel_defs split: option.splits verdict.splits)
  show "inodes w1 = inodes w"
    unfolding w1 by (simp add: sys_close_def kernel_defs split: option.splits verdict.splits)
  show "fdtab w1 = AList.delete r (fdtab w)"
    unfolding w1
    by (simp add: sys_close_def kernel_defs map_of_eq_None_iff
          split: option.splits verdict.splits)
  show "ret = - 1 \<Longrightarrow> map_of (fdtab w) r \<noteq> None \<Longrightarrow>
           (\<exists>f. verdict_now w = Fault f \<and> errno w1 = errno_of f)"
    unfolding w1 r
    by (auto simp: sys_close_def kernel_defs split: option.splits verdict.splits)
  show "ret \<noteq> - 1 \<Longrightarrow> (\<exists>n. verdict_now w = Proceed n)"
    unfolding r
    by (auto simp: sys_close_def kernel_defs split: option.splits verdict.splits)
qed

lemma errno_of_not_ENOENT: "errno_of f \<noteq> ENOENT"
  by (cases f) (simp_all add: errno_of_def ENOENT_def)

lemma sys_unlinkat_effect:
  assumes "sys_unlinkat d nm w = (ret, w1)"
  shows "trace w1 = trace w @ [EvUnlinkat d nm]"
    and "env_kept w w1"
    and "inodes w1 = inodes w"
    and "fdtab w1 = fdtab w"
    and "ret = - 1 \<Longrightarrow> entries w1 = entries w \<and>
           (case verdict_now w of
              Fault f \<Rightarrow> errno w1 = errno_of f
            | Proceed n \<Rightarrow>
                (case map_of (fdtab w) d of
                   None \<Rightarrow> errno w1 = EBADF
                 | Some (FileObj i off) \<Rightarrow> errno w1 = ENOTDIR
                 | Some (DirObj dir) \<Rightarrow>
                     if names_dir w dir nm then errno w1 = EISDIR
                     else map_of (entries w) (dir, nm) = None \<and> errno w1 = ENOENT))"
    and "ret \<noteq> - 1 \<Longrightarrow> (\<exists>n. verdict_now w = Proceed n) \<and>
           (\<exists>dir. map_of (fdtab w) d = Some (DirObj dir) \<and> \<not> names_dir w dir nm \<and>
              entries w1 = AList.delete (dir, nm) (entries w))"
proof -
  from assms have r: "ret = fst (sys_unlinkat d nm w)" and w1: "w1 = snd (sys_unlinkat d nm w)"
    by simp_all
  have nd: "\<And>dir. names_dir (w\<lparr>trace := trace w @ [EvUnlinkat d nm]\<rparr>) dir nm = names_dir w dir nm"
    by (rule names_dir_kept) simp
  show "trace w1 = trace w @ [EvUnlinkat d nm]"
    unfolding w1 by (rule sys_unlinkat_trace)
  show "env_kept w w1"
    unfolding w1
    by (simp add: sys_unlinkat_def kernel_defs split: option.splits verdict.splits fobj.splits)
  show "inodes w1 = inodes w"
    unfolding w1
    by (simp add: sys_unlinkat_def kernel_defs split: option.splits verdict.splits fobj.splits)
  show "fdtab w1 = fdtab w"
    unfolding w1
    by (simp add: sys_unlinkat_def kernel_defs split: option.splits verdict.splits fobj.splits)
  show "ret = - 1 \<Longrightarrow> entries w1 = entries w \<and>
           (case verdict_now w of
              Fault f \<Rightarrow> errno w1 = errno_of f
            | Proceed n \<Rightarrow>
                (case map_of (fdtab w) d of
                   None \<Rightarrow> errno w1 = EBADF
                 | Some (FileObj i off) \<Rightarrow> errno w1 = ENOTDIR
                 | Some (DirObj dir) \<Rightarrow>
                     if names_dir w dir nm then errno w1 = EISDIR
                     else map_of (entries w) (dir, nm) = None \<and> errno w1 = ENOENT))"
    unfolding w1 r
    by (auto simp: sys_unlinkat_def kernel_defs nd
          split: option.splits verdict.splits fobj.splits if_splits)
  show "ret \<noteq> - 1 \<Longrightarrow> (\<exists>n. verdict_now w = Proceed n) \<and>
           (\<exists>dir. map_of (fdtab w) d = Some (DirObj dir) \<and> \<not> names_dir w dir nm \<and>
              entries w1 = AList.delete (dir, nm) (entries w))"
    unfolding w1 r
    by (auto simp: sys_unlinkat_def kernel_defs nd
          split: option.splits verdict.splits fobj.splits if_splits)
qed

lemma sys_renameat_effect:
  assumes "sys_renameat d old d new w = (ret, w1)"
  shows "trace w1 = trace w @ [EvRenameat d old d new]"
    and "env_kept w w1"
    and "inodes w1 = inodes w"
    and "fdtab w1 = fdtab w"
    and "ret = - 1 \<Longrightarrow> entries w1 = entries w \<and>
           (case verdict_now w of
              Fault f \<Rightarrow> errno w1 = errno_of f
            | Proceed n \<Rightarrow>
                (case map_of (fdtab w) d of
                   None \<Rightarrow> errno w1 = EBADF
                 | Some (FileObj i off) \<Rightarrow> errno w1 = ENOTDIR
                 | Some (DirObj dir) \<Rightarrow>
                     if map_of (entries w) (dir, old) = None then errno w1 = ENOENT
                     else if special_name new then errno w1 = EBUSY
                     else names_dir w dir new \<and> errno w1 = EISDIR))"
    and "ret \<noteq> - 1 \<Longrightarrow> (\<exists>n. verdict_now w = Proceed n) \<and>
           (\<exists>dir i. map_of (fdtab w) d = Some (DirObj dir) \<and> \<not> names_dir w dir new \<and>
              map_of (entries w) (dir, old) = Some i \<and>
              (if map_of (entries w) (dir, new) = Some i then entries w1 = entries w
               else entries w1 = AList.update (dir, new) i (AList.delete (dir, old) (entries w))))"
proof -
  from assms have r: "ret = fst (sys_renameat d old d new w)"
    and w1: "w1 = snd (sys_renameat d old d new w)"
    by simp_all
  have nd: "\<And>dir. names_dir (w\<lparr>trace := trace w @ [EvRenameat d old d new]\<rparr>) dir new
      = names_dir w dir new"
    by (rule names_dir_kept) simp
  have sp: "\<And>dir. special_name new \<Longrightarrow> names_dir w dir new"
    by (simp add: names_dir_def)
  show "trace w1 = trace w @ [EvRenameat d old d new]"
    unfolding w1 by (rule sys_renameat_trace)
  show "env_kept w w1"
    unfolding w1
    by (simp add: sys_renameat_def kernel_defs split: option.splits verdict.splits fobj.splits)
  show "inodes w1 = inodes w"
    unfolding w1
    by (simp add: sys_renameat_def kernel_defs split: option.splits verdict.splits fobj.splits)
  show "fdtab w1 = fdtab w"
    unfolding w1
    by (simp add: sys_renameat_def kernel_defs split: option.splits verdict.splits fobj.splits)
  show "ret = - 1 \<Longrightarrow> entries w1 = entries w \<and>
           (case verdict_now w of
              Fault f \<Rightarrow> errno w1 = errno_of f
            | Proceed n \<Rightarrow>
                (case map_of (fdtab w) d of
                   None \<Rightarrow> errno w1 = EBADF
                 | Some (FileObj i off) \<Rightarrow> errno w1 = ENOTDIR
                 | Some (DirObj dir) \<Rightarrow>
                     if map_of (entries w) (dir, old) = None then errno w1 = ENOENT
                     else if special_name new then errno w1 = EBUSY
                     else names_dir w dir new \<and> errno w1 = EISDIR))"
    unfolding w1 r
    by (auto simp: sys_renameat_def kernel_defs nd
          split: option.splits verdict.splits fobj.splits if_splits)
  show "ret \<noteq> - 1 \<Longrightarrow> (\<exists>n. verdict_now w = Proceed n) \<and>
           (\<exists>dir i. map_of (fdtab w) d = Some (DirObj dir) \<and> \<not> names_dir w dir new \<and>
              map_of (entries w) (dir, old) = Some i \<and>
              (if map_of (entries w) (dir, new) = Some i then entries w1 = entries w
               else entries w1 = AList.update (dir, new) i (AList.delete (dir, old) (entries w))))"
    unfolding w1 r using sp
    by (auto simp: sys_renameat_def kernel_defs nd
          split: option.splits verdict.splits fobj.splits if_splits)
qed

section \<open>The effect of each operation of a handle\<close>

lemma BaseFd_sync_effect:
  assumes "BaseFd_sync this w = (r, w1)"
  shows "trace w1 = trace w @ [EvFsync (fd this)]"
    and "env_kept w w1"
    and "entries w1 = entries w"
    and "inodes w1 = inodes w"
    and "fdtab w1 = fdtab w"
    and "r = Inl e \<Longrightarrow>
           e = system_error (errno w1)
                 (buildCommittedFileError ''fsync'' (directory this) (file this) [] (errno w1)) \<and>
           (case verdict_now w of
              Fault f \<Rightarrow> errno w1 = errno_of f
            | Proceed n \<Rightarrow> map_of (fdtab w) (fd this) = None \<and> errno w1 = EBADF)"
    and "r = Inr u \<Longrightarrow> (\<exists>n. verdict_now w = Proceed n)"
proof -
  obtain ret w2 where s: "sys_fsync (fd this) w = (ret, w2)"
    by (cases "sys_fsync (fd this) w") auto
  with assms have w1: "w1 = w2"
    by (simp add: BaseFd_sync_def split: if_splits)
  from sys_fsync_effect(1-5) [OF s] w1
  show "trace w1 = trace w @ [EvFsync (fd this)]" and "env_kept w w1"
    and "entries w1 = entries w" and "inodes w1 = inodes w" and "fdtab w1 = fdtab w"
    by simp_all
  from assms s sys_fsync_effect(6) [OF s] w1 show "r = Inl e \<Longrightarrow>
           e = system_error (errno w1)
                 (buildCommittedFileError ''fsync'' (directory this) (file this) [] (errno w1)) \<and>
           (case verdict_now w of
              Fault f \<Rightarrow> errno w1 = errno_of f
            | Proceed n \<Rightarrow> map_of (fdtab w) (fd this) = None \<and> errno w1 = EBADF)"
    by (auto simp: BaseFd_sync_def split: if_splits)
  from assms s sys_fsync_effect(7) [OF s] show "r = Inr u \<Longrightarrow> (\<exists>n. verdict_now w = Proceed n)"
    by (auto simp: BaseFd_sync_def split: if_splits)
qed

lemma BaseFd_close_effect:
  assumes "BaseFd_close this w = (r, this1, w1)" and "0 \<le> fd this"
  shows "this1 = this\<lparr>fd := - 1\<rparr>"
    and "trace w1 = trace w @ [EvClose (fd this)]"
    and "env_kept w w1"
    and "entries w1 = entries w"
    and "inodes w1 = inodes w"
    and "fdtab w1 = AList.delete (fd this) (fdtab w)"
    and "r = Inl e \<Longrightarrow>
           e = system_error (errno w1)
                 (buildCommittedFileError ''close'' (directory this) (file this) [] (errno w1)) \<and>
           (map_of (fdtab w) (fd this) \<noteq> None \<longrightarrow>
              (\<exists>f. verdict_now w = Fault f \<and> errno w1 = errno_of f))"
    and "r = Inr u \<Longrightarrow> (\<exists>n. verdict_now w = Proceed n)"
proof -
  obtain ret w2 where s: "sys_close (fd this) w = (ret, w2)"
    by (cases "sys_close (fd this) w") auto
  with assms have w1: "w1 = w2"
    by (simp add: BaseFd_close_def Let_def split: if_splits)
  from sys_close_effect(1-5) [OF s] w1
  show "trace w1 = trace w @ [EvClose (fd this)]" and "env_kept w w1"
    and "entries w1 = entries w" and "inodes w1 = inodes w"
    and "fdtab w1 = AList.delete (fd this) (fdtab w)"
    by simp_all
  from assms s show "this1 = this\<lparr>fd := - 1\<rparr>"
    by (auto simp: BaseFd_close_def Let_def split: if_splits)
  from assms s sys_close_effect(6) [OF s] w1 show "r = Inl e \<Longrightarrow>
           e = system_error (errno w1)
                 (buildCommittedFileError ''close'' (directory this) (file this) [] (errno w1)) \<and>
           (map_of (fdtab w) (fd this) \<noteq> None \<longrightarrow>
              (\<exists>f. verdict_now w = Fault f \<and> errno w1 = errno_of f))"
    by (auto simp: BaseFd_close_def Let_def split: if_splits)
  from assms s sys_close_effect(7) [OF s] show "r = Inr u \<Longrightarrow> (\<exists>n. verdict_now w = Proceed n)"
    by (auto simp: BaseFd_close_def Let_def split: if_splits)
qed

lemma BaseFd_dtor_closed: "fd this < 0 \<Longrightarrow> BaseFd_dtor this w = w"
  by (simp add: BaseFd_dtor_def)

lemma BaseFd_dtor_effect:
  assumes "0 \<le> fd this"
  shows "trace (BaseFd_dtor this w) = trace w @ [EvClose (fd this)]"
    and "env_kept w (BaseFd_dtor this w)"
    and "entries (BaseFd_dtor this w) = entries w"
    and "inodes (BaseFd_dtor this w) = inodes w"
    and "fdtab (BaseFd_dtor this w) = AList.delete (fd this) (fdtab w)"
proof -
  obtain ret w2 where s: "sys_close (fd this) w = (ret, w2)"
    by (cases "sys_close (fd this) w") auto
  with assms have w1: "BaseFd_dtor this w = w2"
    by (simp add: BaseFd_dtor_def)
  from sys_close_effect(1-5) [OF s] w1
  show "trace (BaseFd_dtor this w) = trace w @ [EvClose (fd this)]"
    and "env_kept w (BaseFd_dtor this w)"
    and "entries (BaseFd_dtor this w) = entries w"
    and "inodes (BaseFd_dtor this w) = inodes w"
    and "fdtab (BaseFd_dtor this w) = AList.delete (fd this) (fdtab w)"
    by simp_all
qed

lemma DirFd_ctor_effect:
  assumes "DirFd_ctor dir w = (r, w1)"
  shows "trace w1 = trace w @ [EvOpen dir (O_RDONLY OR O_CLOEXEC)]"
    and "env_kept w w1"
    and "entries w1 = entries w"
    and "inodes w1 = inodes w"
    and "r = Inl e \<Longrightarrow> fdtab w1 = fdtab w \<and>
           e = system_error (errno w1) (buildCommittedFileError ''open'' dir [] [] (errno w1)) \<and>
           (case verdict_now w of
              Fault f \<Rightarrow> errno w1 = errno_of f
            | Proceed n \<Rightarrow> lookup_path w dir = Inl (errno w1))"
    and "r = Inr this \<Longrightarrow>
           this = \<lparr>directory = dir, file = [], fd = alloc_fd w\<rparr> \<and>
           (\<exists>n. verdict_now w = Proceed n) \<and>
           (\<exists>obj. lookup_path w dir = Inr obj \<and> fdtab w1 = (alloc_fd w, obj) # fdtab w)"
proof -
  obtain ret w2 where s: "sys_open dir (O_RDONLY OR O_CLOEXEC) w = (ret, w2)"
    by (cases "sys_open dir (O_RDONLY OR O_CLOEXEC) w") auto
  with assms have w1: "w1 = w2"
    by (simp add: DirFd_ctor_def Let_def split: if_splits)
  from sys_open_effect(1-4) [OF s] w1
  show "trace w1 = trace w @ [EvOpen dir (O_RDONLY OR O_CLOEXEC)]" and "env_kept w w1"
    and "entries w1 = entries w" and "inodes w1 = inodes w"
    by simp_all
  from assms s sys_open_effect(5) [OF s] w1
  show "r = Inl e \<Longrightarrow> fdtab w1 = fdtab w \<and>
           e = system_error (errno w1) (buildCommittedFileError ''open'' dir [] [] (errno w1)) \<and>
           (case verdict_now w of
              Fault f \<Rightarrow> errno w1 = errno_of f
            | Proceed n \<Rightarrow> lookup_path w dir = Inl (errno w1))"
    by (auto simp: DirFd_ctor_def Let_def split: if_splits)
  from assms s sys_open_effect(6) [OF s] w1
  show "r = Inr this \<Longrightarrow>
           this = \<lparr>directory = dir, file = [], fd = alloc_fd w\<rparr> \<and>
           (\<exists>n. verdict_now w = Proceed n) \<and>
           (\<exists>obj. lookup_path w dir = Inr obj \<and> fdtab w1 = (alloc_fd w, obj) # fdtab w)"
    by (auto simp: DirFd_ctor_def Let_def NO_FILE_def split: if_splits)
qed

lemma create_mode: "S_IRUSR OR S_IWUSR OR S_IRGRP OR S_IROTH = mode_0644"
  by (simp add: S_IRUSR_def S_IWUSR_def S_IRGRP_def S_IROTH_def mode_0644_def)

lemma create_flags_bits: "create_flags AND O_TRUNC \<noteq> 0" "create_flags AND O_CREAT \<noteq> 0"
  by (simp_all add: create_flags_def O_CREAT_def O_WRONLY_def O_TRUNC_def O_CLOEXEC_def)

lemma WriteFd_ctor_effect:
  assumes "WriteFd_ctor dirFd nm w = (r, w1)"
  shows "trace w1 = trace w @ [EvOpenat (fd dirFd) nm create_flags mode_0644]"
    and "env_kept w w1"
    and "r = Inl e \<Longrightarrow> fdtab w1 = fdtab w \<and> entries w1 = entries w \<and> inodes w1 = inodes w \<and>
           e = system_error (errno w1)
                 (buildCommittedFileError ''open'' (directory dirFd) nm [] (errno w1)) \<and>
           (case verdict_now w of
              Fault f \<Rightarrow> errno w1 = errno_of f
            | Proceed n \<Rightarrow>
                (case map_of (fdtab w) (fd dirFd) of
                   None \<Rightarrow> errno w1 = EBADF
                 | Some (FileObj i off) \<Rightarrow> errno w1 = ENOTDIR
                 | Some (DirObj dir) \<Rightarrow> names_dir w dir nm \<and> errno w1 = EISDIR))"
    and "r = Inr this \<Longrightarrow>
           this = \<lparr>directory = directory dirFd, file = nm, fd = alloc_fd w\<rparr> \<and>
           (\<exists>n. verdict_now w = Proceed n) \<and>
           (\<exists>dir i. map_of (fdtab w) (fd dirFd) = Some (DirObj dir) \<and> \<not> names_dir w dir nm \<and>
              fdtab w1 = (alloc_fd w, FileObj i 0) # fdtab w \<and>
              inodes w1 = (inodes w)(i := []) \<and>
              (case map_of (entries w) (dir, nm) of
                 Some i0 \<Rightarrow> i = i0 \<and> entries w1 = entries w
               | None \<Rightarrow> i = fresh_inode w \<and>
                   entries w1 = AList.update (dir, nm) i (entries w)))"
proof -
  obtain ret w2 where s: "sys_openat (fd dirFd) nm create_flags mode_0644 w = (ret, w2)"
    by (cases "sys_openat (fd dirFd) nm create_flags mode_0644 w") auto
  with assms have w1: "w1 = w2"
    by (simp add: WriteFd_ctor_def Let_def create_mode create_flags_def split: if_splits)
  from sys_openat_effect(1-2) [OF s] w1
  show "trace w1 = trace w @ [EvOpenat (fd dirFd) nm create_flags mode_0644]"
    and "env_kept w w1"
    by simp_all
  from assms s sys_openat_effect(3) [OF s] w1 create_flags_bits
  show "r = Inl e \<Longrightarrow> fdtab w1 = fdtab w \<and> entries w1 = entries w \<and> inodes w1 = inodes w \<and>
           e = system_error (errno w1)
                 (buildCommittedFileError ''open'' (directory dirFd) nm [] (errno w1)) \<and>
           (case verdict_now w of
              Fault f \<Rightarrow> errno w1 = errno_of f
            | Proceed n \<Rightarrow>
                (case map_of (fdtab w) (fd dirFd) of
                   None \<Rightarrow> errno w1 = EBADF
                 | Some (FileObj i off) \<Rightarrow> errno w1 = ENOTDIR
                 | Some (DirObj dir) \<Rightarrow> names_dir w dir nm \<and> errno w1 = EISDIR))"
    by (auto simp: WriteFd_ctor_def Let_def create_mode create_flags_def
          split: if_splits verdict.splits option.splits fobj.splits)
  from assms s sys_openat_effect(4) [OF s] w1 create_flags_bits
  show "r = Inr this \<Longrightarrow>
           this = \<lparr>directory = directory dirFd, file = nm, fd = alloc_fd w\<rparr> \<and>
           (\<exists>n. verdict_now w = Proceed n) \<and>
           (\<exists>dir i. map_of (fdtab w) (fd dirFd) = Some (DirObj dir) \<and> \<not> names_dir w dir nm \<and>
              fdtab w1 = (alloc_fd w, FileObj i 0) # fdtab w \<and>
              inodes w1 = (inodes w)(i := []) \<and>
              (case map_of (entries w) (dir, nm) of
                 Some i0 \<Rightarrow> i = i0 \<and> entries w1 = entries w
               | None \<Rightarrow> i = fresh_inode w \<and>
                   entries w1 = AList.update (dir, nm) i (entries w)))"
    by (auto simp: WriteFd_ctor_def Let_def create_mode create_flags_def
          split: if_splits option.splits)
qed

lemma DirFd_renameFile_effect:
  assumes "DirFd_renameFile this old new w = (r, w1)"
  shows "trace w1 = trace w @ [EvRenameat (fd this) old (fd this) new]"
    and "env_kept w w1"
    and "inodes w1 = inodes w"
    and "fdtab w1 = fdtab w"
    and "r = Inl e \<Longrightarrow> entries w1 = entries w \<and>
           e = system_error (errno w1)
                 (buildCommittedFileError ''rename'' (directory this) old new (errno w1)) \<and>
           (case verdict_now w of
              Fault f \<Rightarrow> errno w1 = errno_of f
            | Proceed n \<Rightarrow>
                (case map_of (fdtab w) (fd this) of
                   None \<Rightarrow> errno w1 = EBADF
                 | Some (FileObj i off) \<Rightarrow> errno w1 = ENOTDIR
                 | Some (DirObj dir) \<Rightarrow>
                     if map_of (entries w) (dir, old) = None then errno w1 = ENOENT
                     else if special_name new then errno w1 = EBUSY
                     else names_dir w dir new \<and> errno w1 = EISDIR))"
    and "r = Inr u \<Longrightarrow> (\<exists>n. verdict_now w = Proceed n) \<and>
           (\<exists>dir i. map_of (fdtab w) (fd this) = Some (DirObj dir) \<and> \<not> names_dir w dir new \<and>
              map_of (entries w) (dir, old) = Some i \<and>
              (if map_of (entries w) (dir, new) = Some i then entries w1 = entries w
               else entries w1 = AList.update (dir, new) i (AList.delete (dir, old) (entries w))))"
proof -
  obtain ret w2 where s: "sys_renameat (fd this) old (fd this) new w = (ret, w2)"
    by (cases "sys_renameat (fd this) old (fd this) new w") auto
  with assms have w1: "w1 = w2"
    by (simp add: DirFd_renameFile_def split: if_splits)
  from sys_renameat_effect(1-4) [OF s] w1
  show "trace w1 = trace w @ [EvRenameat (fd this) old (fd this) new]"
    and "env_kept w w1" and "inodes w1 = inodes w" and "fdtab w1 = fdtab w"
    by simp_all
  show "r = Inl e \<Longrightarrow> entries w1 = entries w \<and>
           e = system_error (errno w1)
                 (buildCommittedFileError ''rename'' (directory this) old new (errno w1)) \<and>
           (case verdict_now w of
              Fault f \<Rightarrow> errno w1 = errno_of f
            | Proceed n \<Rightarrow>
                (case map_of (fdtab w) (fd this) of
                   None \<Rightarrow> errno w1 = EBADF
                 | Some (FileObj i off) \<Rightarrow> errno w1 = ENOTDIR
                 | Some (DirObj dir) \<Rightarrow>
                     if map_of (entries w) (dir, old) = None then errno w1 = ENOENT
                     else if special_name new then errno w1 = EBUSY
                     else names_dir w dir new \<and> errno w1 = EISDIR))"
  proof -
    assume "r = Inl e"
    with assms s have ret: "ret = - 1"
      and e: "e = system_error (errno w2)
                 (buildCommittedFileError ''rename'' (directory this) old new (errno w2))"
      by (auto simp: DirFd_renameFile_def split: if_splits)
    note x = sys_renameat_effect(5) [OF s ret]
    show ?thesis
      unfolding w1 e by (rule conjI [OF x [THEN conjunct1] conjI [OF refl x [THEN conjunct2]]])
  qed
  from assms s sys_renameat_effect(6) [OF s] w1
  show "r = Inr u \<Longrightarrow> (\<exists>n. verdict_now w = Proceed n) \<and>
           (\<exists>dir i. map_of (fdtab w) (fd this) = Some (DirObj dir) \<and> \<not> names_dir w dir new \<and>
              map_of (entries w) (dir, old) = Some i \<and>
              (if map_of (entries w) (dir, new) = Some i then entries w1 = entries w
               else entries w1 = AList.update (dir, new) i (AList.delete (dir, old) (entries w))))"
    by (auto simp: DirFd_renameFile_def split: if_splits)
qed

lemma DirFd_unlink_effect:
  assumes "DirFd_unlink this nm w = (r, w1)"
  shows "trace w1 = trace w @ [EvUnlinkat (fd this) nm]"
    and "env_kept w w1"
    and "inodes w1 = inodes w"
    and "fdtab w1 = fdtab w"
    and "r = Inl e \<Longrightarrow> entries w1 = entries w \<and> errno w1 \<noteq> ENOENT \<and>
           e = system_error (errno w1)
                 (buildCommittedFileError ''unlink'' (directory this) nm [] (errno w1)) \<and>
           (case verdict_now w of
              Fault f \<Rightarrow> errno w1 = errno_of f
            | Proceed n \<Rightarrow>
                (case map_of (fdtab w) (fd this) of
                   None \<Rightarrow> errno w1 = EBADF
                 | Some (FileObj i off) \<Rightarrow> errno w1 = ENOTDIR
                 | Some (DirObj dir) \<Rightarrow> names_dir w dir nm \<and> errno w1 = EISDIR))"
    and "r = Inr u \<Longrightarrow> (\<exists>n. verdict_now w = Proceed n) \<and>
           (\<exists>dir. map_of (fdtab w) (fd this) = Some (DirObj dir) \<and> \<not> names_dir w dir nm \<and>
              map_of (entries w1) = (map_of (entries w))((dir, nm) := None))"
proof -
  obtain ret v where s: "sys_unlinkat (fd this) nm w = (ret, v)"
    by (cases "sys_unlinkat (fd this) nm w")
  note eff = sys_unlinkat_effect [OF s]
  from assms s have res: "(r, w1) =
      (if ret = - 1 \<and> errno v \<noteq> ENOENT
       then (Inl (system_error (errno v)
               (buildCommittedFileError ''unlink'' (directory this) nm [] (errno v))), v)
       else (Inr (), v))"
    by (simp add: DirFd_unlink_def)
  then have v: "w1 = v" by (simp split: if_splits)
  from eff(1-4) show "trace w1 = trace w @ [EvUnlinkat (fd this) nm]" and "env_kept w w1"
    and "inodes w1 = inodes w" and "fdtab w1 = fdtab w"
    unfolding v by simp_all
  have codes: "EBADF \<noteq> ENOENT" "ENOTDIR \<noteq> ENOENT" "EISDIR \<noteq> ENOENT"
    by (simp_all add: EBADF_def ENOTDIR_def EISDIR_def ENOENT_def)
  show "r = Inl e \<Longrightarrow> entries w1 = entries w \<and> errno w1 \<noteq> ENOENT \<and>
           e = system_error (errno w1)
                 (buildCommittedFileError ''unlink'' (directory this) nm [] (errno w1)) \<and>
           (case verdict_now w of
              Fault f \<Rightarrow> errno w1 = errno_of f
            | Proceed n \<Rightarrow>
                (case map_of (fdtab w) (fd this) of
                   None \<Rightarrow> errno w1 = EBADF
                 | Some (FileObj i off) \<Rightarrow> errno w1 = ENOTDIR
                 | Some (DirObj dir) \<Rightarrow> names_dir w dir nm \<and> errno w1 = EISDIR))"
  proof -
    assume "r = Inl e"
    with res have ret: "ret = - 1" and ne: "errno v \<noteq> ENOENT"
      and e: "e = system_error (errno v)
                 (buildCommittedFileError ''unlink'' (directory this) nm [] (errno v))"
      by (simp_all split: if_splits)
    from eff(5) [OF ret] ne e show ?thesis
      unfolding v
      by (auto split: verdict.splits option.splits fobj.splits if_splits)
  qed
  show "r = Inr u \<Longrightarrow> (\<exists>n. verdict_now w = Proceed n) \<and>
           (\<exists>dir. map_of (fdtab w) (fd this) = Some (DirObj dir) \<and> \<not> names_dir w dir nm \<and>
              map_of (entries w1) = (map_of (entries w))((dir, nm) := None))"
  proof -
    assume "r = Inr u"
    with res have c: "ret \<noteq> - 1 \<or> errno v = ENOENT" by (simp split: if_splits)
    show ?thesis
    proof (cases "ret = - 1")
      case False
      from eff(6) [OF False] show ?thesis unfolding v by (auto simp: delete_conv')
    next
      case True
      with c have en: "errno v = ENOENT" by simp
      from eff(5) [OF True] en codes errno_of_not_ENOENT
      obtain n dir where "verdict_now w = Proceed n" "entries v = entries w"
        "map_of (fdtab w) (fd this) = Some (DirObj dir)" "\<not> names_dir w dir nm"
        "map_of (entries w) (dir, nm) = None"
        by (auto split: verdict.splits option.splits fobj.splits if_splits)
      then show ?thesis unfolding v
        by (intro conjI exI [of _ n] exI [of _ dir]) (simp_all add: fun_upd_idem)
    qed
  qed
qed

section \<open>The write loop\<close>

lemma write_at_append:
  "write_at (off + length c1) c2 (write_at off c1 old) = write_at off (c1 @ c2) old"
  by (auto simp: write_at_def min_def ac_simps)

lemma written_through_refl: "written_through this [] w w"
  by (simp add: written_through_def)

lemma written_through_append:
  assumes "written_through this c1 w w1" and "written_through this c2 w1 w2"
  shows "written_through this (c1 @ c2) w w2"
proof -
  from assms(1) show ?thesis
    unfolding written_through_def
  proof
    assume a: "c1 = [] \<and> inodes w1 = inodes w \<and> map_of (fdtab w1) = map_of (fdtab w)"
    with assms(2) show "(c1 @ c2 = [] \<and> inodes w2 = inodes w \<and> map_of (fdtab w2) = map_of (fdtab w)) \<or>
      (\<exists>i off. map_of (fdtab w) (fd this) = Some (FileObj i off) \<and>
         inodes w2 = (inodes w)(i := write_at off (c1 @ c2) (inodes w i)) \<and>
         map_of (fdtab w2) = (map_of (fdtab w))(fd this \<mapsto> FileObj i (off + length (c1 @ c2))))"
      by (simp add: written_through_def)
  next
    assume "\<exists>i off. map_of (fdtab w) (fd this) = Some (FileObj i off) \<and>
         inodes w1 = (inodes w)(i := write_at off c1 (inodes w i)) \<and>
         map_of (fdtab w1) = (map_of (fdtab w))(fd this \<mapsto> FileObj i (off + length c1))"
    then obtain i off where b: "map_of (fdtab w) (fd this) = Some (FileObj i off)"
      and c: "inodes w1 = (inodes w)(i := write_at off c1 (inodes w i))"
      and d: "map_of (fdtab w1) = (map_of (fdtab w))(fd this \<mapsto> FileObj i (off + length c1))"
      by blast
    from assms(2) have "inodes w2 = (inodes w)(i := write_at off (c1 @ c2) (inodes w i)) \<and>
         map_of (fdtab w2) = (map_of (fdtab w))(fd this \<mapsto> FileObj i (off + length (c1 @ c2)))"
      unfolding written_through_def
    proof
      assume "c2 = [] \<and> inodes w2 = inodes w1 \<and> map_of (fdtab w2) = map_of (fdtab w1)"
      with c d show ?thesis by simp
    next
      assume "\<exists>i off. map_of (fdtab w1) (fd this) = Some (FileObj i off) \<and>
         inodes w2 = (inodes w1)(i := write_at off c2 (inodes w1 i)) \<and>
         map_of (fdtab w2) = (map_of (fdtab w1))(fd this \<mapsto> FileObj i (off + length c2))"
      then obtain i' off' where e: "map_of (fdtab w1) (fd this) = Some (FileObj i' off')"
        and f: "inodes w2 = (inodes w1)(i' := write_at off' c2 (inodes w1 i'))"
        and g: "map_of (fdtab w2) = (map_of (fdtab w1))(fd this \<mapsto> FileObj i' (off' + length c2))"
        by blast
      from e d have h: "i' = i" "off' = off + length c1" by simp_all
      from f c h have "inodes w2 = (inodes w)(i := write_at off (c1 @ c2) (inodes w i))"
        by (simp add: write_at_append)
      moreover from g d h
      have "map_of (fdtab w2) = (map_of (fdtab w))(fd this \<mapsto> FileObj i (off + length (c1 @ c2)))"
        by (simp add: add.assoc)
      ultimately show ?thesis by simp
    qed
    with b show "(c1 @ c2 = [] \<and> inodes w2 = inodes w \<and> map_of (fdtab w2) = map_of (fdtab w)) \<or>
      (\<exists>i off. map_of (fdtab w) (fd this) = Some (FileObj i off) \<and>
         inodes w2 = (inodes w)(i := write_at off (c1 @ c2) (inodes w i)) \<and>
         map_of (fdtab w2) = (map_of (fdtab w))(fd this \<mapsto> FileObj i (off + length (c1 @ c2))))"
      by blast
  qed
qed

lemma written_so_far_step:
  assumes s: "sys_write (fd this) (drop written data) w = (ret, w1)"
    and ret: "0 \<le> ret"
    and lt: "written < length data"
    and rest: "written_so_far this data (written + nat ret) w1 y"
  shows "written_so_far this data written w y"
proof -
  obtain r w2 where y: "y = (r, w2)" by (cases y) auto
  note eff = sys_write_effect [OF s]
  let ?t = "length (trace w)"
  let ?buf = "drop written data"
  from eff(5) [OF ret] obtain i off n where
    fdw: "map_of (fdtab w) (fd this) = Some (FileObj i off)" and
    now: "verdict_now w = Proceed n" and
    cnt: "nat ret = min n (length ?buf)" and
    ino: "inodes w1 = (inodes w)(i := write_at off (take (nat ret) ?buf) (inodes w i))" and
    tab: "map_of (fdtab w1) = (map_of (fdtab w))(fd this \<mapsto> FileObj i (off + nat ret))"
    by blast
  from cnt have le: "nat ret \<le> length ?buf" by simp
  then have len1: "length (take (nat ret) ?buf) = nat ret" by simp
  from fdw ino tab len1
  have first: "written_through this (take (nat ret) ?buf) w w1"
    unfolding written_through_def by auto
  from eff(2) have vs: "verdicts w1 = verdicts w" by (simp add: env_kept_def)
  from eff(1) have t1: "length (trace w1) = Suc ?t" by simp
  have dd: "drop (written + nat ret) data = drop (nat ret) ?buf"
    by (simp add: add.commute)
  from rest y obtain ns where
    env: "env_kept w1 w2" and ent: "entries w2 = entries w1" and
    rep: "reported (verdicts w) (Suc ?t) (drop (nat ret) ?buf) ns" and
    second: "written_through this (take (sum_list ns) (drop (nat ret) ?buf)) w1 w2" and
    res: "case r of
            Inr u \<Rightarrow>
              sum_list ns = length data - (written + nat ret) \<and>
              trace w2 = trace w1 @ map (EvWrite (fd this)) (chunks (drop (nat ret) ?buf) ns)
          | Inl e \<Rightarrow>
              sum_list ns < length data - (written + nat ret) \<and>
              trace w2 = trace w1 @ map (EvWrite (fd this))
                (chunks (drop (nat ret) ?buf) ns @ [drop (written + nat ret + sum_list ns) data]) \<and>
              e = write_error this w2 \<and>
              write_refused this (Suc ?t + length ns) w1 w2"
    unfolding written_so_far_def vs t1 dd by auto
  from lt have ne: "?buf \<noteq> []" by simp
  from now cnt ne rep
  have rep2: "reported (verdicts w) ?t ?buf (nat ret # ns)"
    by (simp add: verdict_now_def)
  have "take (nat ret + sum_list ns) ?buf
      = take (nat ret) ?buf @ take (sum_list ns) (drop (nat ret) ?buf)"
    by (rule take_add)
  with written_through_append [OF first second]
  have both: "written_through this (take (sum_list (nat ret # ns)) ?buf) w w2" by simp
  from env eff(2) have env2: "env_kept w w2" by (rule env_kept_trans [rotated])
  from ent eff(3) have ent2: "entries w2 = entries w" by simp
  have refused: "write_refused this (?t + length (nat ret # ns)) w w2"
    if "write_refused this (Suc ?t + length ns) w1 w2"
    using that tab vs by (auto simp: write_refused_def split: verdict.splits)
  from le lt have room: "nat ret \<le> length data - written" by simp
  have final: "case r of
      Inr u \<Rightarrow>
        sum_list (nat ret # ns) = length data - written \<and>
        trace w2 = trace w @ map (EvWrite (fd this)) (chunks ?buf (nat ret # ns))
    | Inl e \<Rightarrow>
        sum_list (nat ret # ns) < length data - written \<and>
        trace w2 = trace w @ map (EvWrite (fd this))
          (chunks ?buf (nat ret # ns) @ [drop (written + sum_list (nat ret # ns)) data]) \<and>
        e = write_error this w2 \<and>
        write_refused this (?t + length (nat ret # ns)) w w2"
  proof (cases r)
    case (Inl e)
    with res have "sum_list ns < length data - (written + nat ret)" by simp
    with room have "nat ret + sum_list ns < length data - written" by arith
    with Inl res refused eff(1) show ?thesis by (simp add: add.assoc)
  next
    case (Inr u)
    with res room eff(1) show ?thesis by simp
  qed
  from env2 ent2 rep2 both final show ?thesis
    unfolding y written_so_far_def by (simp only: prod.case) blast
qed

lemma writeAll_loop_effect:
  assumes "writeAll_loop this0 data0 sz0 written0 w0 = Some y0"
  shows "sz0 = length data0 \<longrightarrow> written0 \<le> sz0 \<longrightarrow> written_so_far this0 data0 written0 w0 y0"
proof (rule writeAll_loop.raw_induct
    [where P = "\<lambda>this data sz written w y.
        sz = length data \<longrightarrow> written \<le> sz \<longrightarrow> written_so_far this data written w y",
      OF _ assms])
  fix loop :: "BaseFd \<Rightarrow> string \<Rightarrow> nat \<Rightarrow> nat \<Rightarrow> world \<Rightarrow> ((error + unit) \<times> world) option"
    and this data sz written w y
  assume IH: "\<And>this data sz written w y. loop this data sz written w = Some y \<Longrightarrow>
      sz = length data \<longrightarrow> written \<le> sz \<longrightarrow> written_so_far this data written w y"
    and body: "(if written < sz
      then (case sys_write (fd this) (take (sz - written) (drop written data)) w of
              (ret, w1) \<Rightarrow>
                if ret < 0
                then Some (Inl (system_error (errno w1)
                             (buildCommittedFileError ''write'' (directory this) (file this) []
                                (errno w1))), w1)
                else loop this data sz (written + nat ret) w1)
      else Some (Inr (), w)) = Some y"
  show "sz = length data \<longrightarrow> written \<le> sz \<longrightarrow> written_so_far this data written w y"
  proof (intro impI)
    assume sz: "sz = length data" and le: "written \<le> sz"
    show "written_so_far this data written w y"
    proof (cases "written < sz")
      case False
      with body have y: "y = (Inr (), w)" by simp
      from False le sz have "written = length data" by simp
      then show ?thesis
        unfolding y written_so_far_def
        using env_kept_refl [of w] written_through_refl [of this w]
        by (auto intro: exI [of _ "[]"])
    next
      case True
      obtain ret w1 where s: "sys_write (fd this) (take (sz - written) (drop written data)) w = (ret, w1)"
        by (cases "sys_write (fd this) (take (sz - written) (drop written data)) w") auto
      from sz have buf: "take (sz - written) (drop written data) = drop written data" by simp
      from s buf have s': "sys_write (fd this) (drop written data) w = (ret, w1)" by simp
      note eff = sys_write_effect [OF s']
      show ?thesis
      proof (cases "ret < 0")
        case neg: True
        with body True s have y: "y = (Inl (write_error this w1), w1)"
          by (simp add: write_error_def)
        from eff(4) [OF neg] have same: "fdtab w1 = fdtab w" "inodes w1 = inodes w"
          and why: "write_refused this (length (trace w)) w w1"
          by (simp_all add: write_refused_def verdict_now_def)
        have wt: "written_through this [] w w1"
          using same by (simp add: written_through_def)
        from True sz have pos: "0 < length data - written" by simp
        from eff(1) have tr: "trace w1 = trace w @ map (EvWrite (fd this)) [drop written data]"
          by simp
        show ?thesis
          unfolding y written_so_far_def
          using eff(2,3) wt pos tr why
          by (simp only: prod.case)
            (intro conjI exI [of _ "[]"]; simp)
      next
        case nonneg: False
        with body True s have rec: "loop this data sz (written + nat ret) w1 = Some y"
          by simp
        from nonneg have ret0: "0 \<le> ret" by simp
        from eff(5) [OF ret0] have "nat ret \<le> length (drop written data)" by auto
        with sz True have le2: "written + nat ret \<le> sz" by simp
        from IH [OF rec] sz le2
        have rest: "written_so_far this data (written + nat ret) w1 y" by simp
        from True sz have lt: "written < length data" by simp
        from written_so_far_step [OF s' ret0 lt rest] show ?thesis .
      qed
    qed
  qed
qed

lemma alloc_fd_Cons: "alloc_fd (w\<lparr>fdtab := (alloc_fd w, obj) # fdtab w\<rparr>) \<noteq> alloc_fd w"
  using alloc_fd_fresh [of "w\<lparr>fdtab := (alloc_fd w, obj) # fdtab w\<rparr>"] by auto

lemma alloc_fd_cong: "fdtab w1 = fdtab w2 \<Longrightarrow> alloc_fd w1 = alloc_fd w2"
  by (simp add: alloc_fd_def)

lemma reported_sum: "reported vs t buf ns \<Longrightarrow> sum_list ns \<le> length buf"
proof (induction ns arbitrary: t buf)
  case Nil
  then show ?case by simp
next
  case (Cons n ns)
  then have n: "n \<le> length buf" and rest: "reported vs (Suc t) (drop n buf) ns"
    by (auto split: verdict.splits)
  from Cons.IH [OF rest] n show ?case by simp
qed

lemma reported_proceeds:
  "reported vs t buf ns \<Longrightarrow> i < length ns \<Longrightarrow> \<exists>m. vs (t + i) = Proceed m"
proof (induction ns arbitrary: t buf i)
  case Nil
  then show ?case by simp
next
  case (Cons n ns)
  show ?case
  proof (cases i)
    case 0
    with Cons.prems show ?thesis by (auto split: verdict.splits)
  next
    case (Suc k)
    with Cons.prems have "reported vs (Suc t) (drop n buf) ns" and "k < length ns" by simp_all
    from Cons.IH [OF this] Suc show ?thesis by simp
  qed
qed

lemma chunks_length [simp]: "length (chunks buf ns) = length ns"
  by (induction ns arbitrary: buf) simp_all

lemma chunks_nonempty:
  "reported vs t buf ns \<Longrightarrow> c \<in> set (chunks buf ns) \<Longrightarrow> c \<noteq> []"
  by (induction ns arbitrary: t buf) auto

text \<open>The loop started on a file that is open at offset 0 and empty.\<close>

lemma written_from_start:
  assumes ws: "written_so_far this data 0 w (r, w1)"
    and fdw: "map_of (fdtab w) (fd this) = Some (FileObj j 0)"
    and empty: "inodes w j = []"
  shows "\<exists>ns. reported (verdicts w) (length (trace w)) data ns \<and>
           inodes w1 = (inodes w)(j := take (sum_list ns) data) \<and>
           map_of (fdtab w1) = (map_of (fdtab w))(fd this \<mapsto> FileObj j (sum_list ns)) \<and>
           env_kept w w1 \<and> entries w1 = entries w \<and>
           (case r of
              Inr u \<Rightarrow>
                sum_list ns = length data \<and>
                trace w1 = trace w @ map (EvWrite (fd this)) (chunks data ns)
            | Inl e \<Rightarrow>
                sum_list ns < length data \<and>
                trace w1 = trace w @ map (EvWrite (fd this))
                  (chunks data ns @ [drop (sum_list ns) data]) \<and>
                e = write_error this w1 \<and>
                (\<exists>f. verdicts w (length (trace w) + length ns) = Fault f \<and>
                     errno w1 = errno_of f))"
proof -
  from ws obtain ns where
    env: "env_kept w w1" and ent: "entries w1 = entries w" and
    rep: "reported (verdicts w) (length (trace w)) data ns" and
    wt: "written_through this (take (sum_list ns) data) w w1" and
    res: "case r of
            Inr u \<Rightarrow>
              sum_list ns = length data \<and>
              trace w1 = trace w @ map (EvWrite (fd this)) (chunks data ns)
          | Inl e \<Rightarrow>
              sum_list ns < length data \<and>
              trace w1 = trace w @ map (EvWrite (fd this))
                (chunks data ns @ [drop (sum_list ns) data]) \<and>
              e = write_error this w1 \<and>
              write_refused this (length (trace w) + length ns) w w1"
    by (auto simp: written_so_far_def cong: sum.case_cong)
  from reported_sum [OF rep] have len: "length (take (sum_list ns) data) = sum_list ns" by simp
  have w0: "write_at 0 (take (sum_list ns) data) [] = take (sum_list ns) data"
    by (simp add: write_at_def)
  from wt fdw empty len w0
  have files: "inodes w1 = (inodes w)(j := take (sum_list ns) data) \<and>
        map_of (fdtab w1) = (map_of (fdtab w))(fd this \<mapsto> FileObj j (sum_list ns))"
    unfolding written_through_def
    by (auto simp: fun_upd_idem)
  have final: "case r of
      Inr u \<Rightarrow>
        sum_list ns = length data \<and>
        trace w1 = trace w @ map (EvWrite (fd this)) (chunks data ns)
    | Inl e \<Rightarrow>
        sum_list ns < length data \<and>
        trace w1 = trace w @ map (EvWrite (fd this))
          (chunks data ns @ [drop (sum_list ns) data]) \<and>
        e = write_error this w1 \<and>
        (\<exists>f. verdicts w (length (trace w) + length ns) = Fault f \<and> errno w1 = errno_of f)"
  proof (cases r)
    case (Inl e)
    with res fdw show ?thesis
      by (auto simp: write_refused_def split: verdict.splits)
  next
    case (Inr u)
    with res show ?thesis by simp
  qed
  from rep files env ent final show ?thesis by blast
qed

section \<open>The outcome of a write\<close>

lemma exit_trace_simps:
  "exit_trace AtOpenDir dir name d f bufs = [EvOpen dir (O_RDONLY OR O_CLOEXEC)]"
  "exit_trace AtCreate dir name d f bufs =
     [EvOpen dir (O_RDONLY OR O_CLOEXEC), EvOpenat d (name @ ''.work'') create_flags mode_0644,
      EvClose d]"
  "exit_trace AtWrite dir name d f bufs =
     [EvOpen dir (O_RDONLY OR O_CLOEXEC), EvOpenat d (name @ ''.work'') create_flags mode_0644]
     @ map (EvWrite f) bufs @ [EvClose f, EvClose d]"
  "exit_trace AtFsyncFile dir name d f bufs =
     [EvOpen dir (O_RDONLY OR O_CLOEXEC), EvOpenat d (name @ ''.work'') create_flags mode_0644]
     @ map (EvWrite f) bufs @ [EvFsync f, EvClose f, EvClose d]"
  "exit_trace AtCloseFile dir name d f bufs =
     [EvOpen dir (O_RDONLY OR O_CLOEXEC), EvOpenat d (name @ ''.work'') create_flags mode_0644]
     @ map (EvWrite f) bufs @ [EvFsync f, EvClose f, EvClose d]"
  "exit_trace AtRename dir name d f bufs =
     [EvOpen dir (O_RDONLY OR O_CLOEXEC), EvOpenat d (name @ ''.work'') create_flags mode_0644]
     @ map (EvWrite f) bufs
     @ [EvFsync f, EvClose f, EvRenameat d (name @ ''.work'') d name, EvClose d]"
  "exit_trace AtFsyncDir dir name d f bufs =
     [EvOpen dir (O_RDONLY OR O_CLOEXEC), EvOpenat d (name @ ''.work'') create_flags mode_0644]
     @ map (EvWrite f) bufs
     @ [EvFsync f, EvClose f, EvRenameat d (name @ ''.work'') d name, EvFsync d, EvClose d]"
  "exit_trace AtCloseDir dir name d f bufs = commit_protocol dir name d f bufs"
  "exit_trace Done dir name d f bufs = commit_protocol dir name d f bufs"
  by (simp_all add: exit_trace_def commit_protocol_def eval_nat_numeral)

lemma steps_done_pos: "0 < steps_done s n"
  by (cases s) simp_all

lemma proceeds_0: "proceeds w t 0"
  by (simp add: proceeds_def)

lemma proceeds_Suc:
  assumes "proceeds w t n" and "env_kept w v" and "length (trace v) = t + n"
    and "\<exists>m. verdict_now v = Proceed m"
  shows "proceeds w t (Suc n)"
  unfolding proceeds_def
proof (intro allI impI)
  fix i assume "i < Suc n"
  show "\<exists>m. verdicts w (t + i) = Proceed m"
  proof (cases "i = n")
    case True
    with assms(2,3,4) show ?thesis by (simp add: verdict_now_def env_kept_def)
  next
    case False
    with \<open>i < Suc n\<close> assms(1) show ?thesis by (simp add: proceeds_def)
  qed
qed

lemma proceeds_add:
  assumes "proceeds w t n" and "reported (verdicts w) (t + n) buf ns"
  shows "proceeds w t (n + length ns)"
  unfolding proceeds_def
proof (intro allI impI)
  fix i assume i: "i < n + length ns"
  show "\<exists>m. verdicts w (t + i) = Proceed m"
  proof (cases "i < n")
    case True
    with assms(1) show ?thesis by (simp add: proceeds_def)
  next
    case False
    with i have "i - n < length ns" by simp
    from reported_proceeds [OF assms(2) this] False show ?thesis by (simp add: add.assoc)
  qed
qed

lemma proceeds_less: "proceeds w t n \<Longrightarrow> k \<le> n \<Longrightarrow> proceeds w t k"
  by (simp add: proceeds_def)

lemma failed_atI:
  assumes "case verdict_now v of Fault f \<Rightarrow> c = errno_of f | Proceed n \<Rightarrow> cause_at s w dir name c"
    and "env_kept w v" and "length (trace v) = t"
  shows "failed_at s w dir name t c"
  using assms by (simp add: failed_at_def verdict_now_def env_kept_def)

lemma write_outcomeI:
  assumes "env_kept w w1"
    and "map_of (fdtab w1) = map_of (fdtab w)"
    and "trace w1 = trace w @ exit_trace s (dirName (filePath this)) (baseName (filePath this))
                               (alloc_fd w) f (calls s data ns)"
    and "reported (verdicts w) (length (trace w) + 2) data ns"
    and "wrote s data ns"
    and "files_at s (dirName (filePath this)) (baseName (filePath this)) j data (sum_list ns) w w1"
    and "proceeds w (length (trace w)) k"
    and "k = steps_done s (length (calls s data ns)) - (if s = Done then 0 else 1)"
    and "if s = Done then r = Inr ()
         else r = Inl (system_error c
                        (message_at s (dirName (filePath this)) (baseName (filePath this)) c)) \<and>
              failed_at s w (dirName (filePath this)) (baseName (filePath this))
                (length (trace w) + k) c"
  shows "write_outcome this data w s r w1"
proof -
  let ?dir = "dirName (filePath this)"
  let ?name = "baseName (filePath this)"
  let ?t = "length (trace w)"
  let ?n = "steps_done s (length (calls s data ns))"
  from steps_done_pos [of s "length (calls s data ns)"]
  have idx: "?t + ?n - 1 = ?t + (?n - 1)" by simp
  have last: "if s = Done
      then proceeds w ?t ?n \<and> r = Inr ()
      else proceeds w ?t (?n - 1) \<and>
           (\<exists>c. r = Inl (system_error c (message_at s ?dir ?name c)) \<and>
                failed_at s w ?dir ?name (?t + ?n - 1) c)"
  proof (cases "s = Done")
    case True
    with assms(7,8,9) show ?thesis by simp
  next
    case False
    with assms(7,8) have p: "proceeds w ?t (?n - 1)" by simp
    from False assms(8,9) have "r = Inl (system_error c (message_at s ?dir ?name c)) \<and>
        failed_at s w ?dir ?name (?t + ?n - 1) c"
      unfolding idx by simp
    then have "\<exists>c. r = Inl (system_error c (message_at s ?dir ?name c)) \<and>
        failed_at s w ?dir ?name (?t + ?n - 1) c" ..
    with False p show ?thesis by simp
  qed
  from assms(3,4,5,6) last
  have "\<exists>f ns j.
      trace w1 = trace w @ exit_trace s ?dir ?name (alloc_fd w) f (calls s data ns) \<and>
      reported (verdicts w) (?t + 2) data ns \<and> wrote s data ns \<and>
      files_at s ?dir ?name j data (sum_list ns) w w1 \<and>
      (if s = Done
       then proceeds w ?t (steps_done s (length (calls s data ns))) \<and> r = Inr ()
       else proceeds w ?t (steps_done s (length (calls s data ns)) - 1) \<and>
            (\<exists>c. r = Inl (system_error c (message_at s ?dir ?name c)) \<and>
                 failed_at s w ?dir ?name
                   (?t + steps_done s (length (calls s data ns)) - 1) c))"
    by blast
  with assms(1,2) show ?thesis
    unfolding write_outcome_def Let_def by simp
qed

text \<open>The state once the directory is open and the work file is created.\<close>

lemma staging_opened:
  assumes c1: "DirFd_ctor dir w = (Inr dirFd, w1)"
    and c2: "WriteFd_ctor dirFd (name @ ''.work'') w1 = (Inr workFileFd, w2)"
  shows "\<exists>j. dirFd = \<lparr>directory = dir, file = [], fd = alloc_fd w\<rparr> \<and>
           workFileFd = \<lparr>directory = dir, file = name @ ''.work'', fd = alloc_fd w1\<rparr> \<and>
           alloc_fd w1 \<noteq> alloc_fd w \<and>
           trace w2 = trace w @ [EvOpen dir (O_RDONLY OR O_CLOEXEC),
                                 EvOpenat (alloc_fd w) (name @ ''.work'') create_flags mode_0644] \<and>
           env_kept w w2 \<and> proceeds w (length (trace w)) 2 \<and>
           dir \<in> set (dirs w) \<and> \<not> names_dir w dir (name @ ''.work'') \<and>
           fdtab w2 = (alloc_fd w1, FileObj j 0) # (alloc_fd w, DirObj dir) # fdtab w \<and>
           staged dir name j [] w w2"
proof -
  note e1 = DirFd_ctor_effect [OF c1]
  note e2 = WriteFd_ctor_effect [OF c2]
  from e1(6) obtain obj where
    dirFd: "dirFd = \<lparr>directory = dir, file = [], fd = alloc_fd w\<rparr>" and
    v1: "\<exists>n. verdict_now w = Proceed n" and
    look: "lookup_path w dir = Inr obj" and
    tab1: "fdtab w1 = (alloc_fd w, obj) # fdtab w"
    by blast
  from e2(4) dirFd obtain dir' j where
    workFd: "workFileFd = \<lparr>directory = dir, file = name @ ''.work'', fd = alloc_fd w1\<rparr>" and
    v2: "\<exists>n. verdict_now w1 = Proceed n" and
    isdir: "map_of (fdtab w1) (alloc_fd w) = Some (DirObj dir')" and
    nodir: "\<not> names_dir w1 dir' (name @ ''.work'')" and
    tab2: "fdtab w2 = (alloc_fd w1, FileObj j 0) # fdtab w1" and
    ino2: "inodes w2 = (inodes w1)(j := [])" and
    ent2: "case map_of (entries w1) (dir', name @ ''.work'') of
             Some i0 \<Rightarrow> j = i0 \<and> entries w2 = entries w1
           | None \<Rightarrow> j = fresh_inode w1 \<and>
               entries w2 = AList.update (dir', name @ ''.work'') j (entries w1)"
    by auto
  from isdir tab1 have obj: "obj = DirObj dir'" by simp
  with look lookup_path_DirObj [of w dir dir'] have same: "dir' = dir" and ex: "dir \<in> set (dirs w)"
    by simp_all
  with obj have obj': "obj = DirObj dir" by simp
  from e1(2) have "dirs w1 = dirs w" by (simp add: env_kept_def)
  from nodir names_dir_kept [OF this] same
  have nodir': "\<not> names_dir w dir (name @ ''.work'')" by simp
  from alloc_fd_fresh [of w1] tab1 have neq: "alloc_fd w1 \<noteq> alloc_fd w" by auto
  from e2(1) e1(1) dirFd
  have tr: "trace w2 = trace w @ [EvOpen dir (O_RDONLY OR O_CLOEXEC),
              EvOpenat (alloc_fd w) (name @ ''.work'') create_flags mode_0644]"
    by simp
  from e1(2) e2(2) have env: "env_kept w w2" by (rule env_kept_trans)
  from proceeds_Suc [OF proceeds_0 env_kept_refl _ v1, of "length (trace w)"]
  have p1: "proceeds w (length (trace w)) (Suc 0)" by simp
  from proceeds_Suc [OF p1 e1(2) _ v2] e1(1)
  have p2: "proceeds w (length (trace w)) 2" by (simp add: numeral_2_eq_2)
  have st: "staged dir name j [] w w2"
  proof (cases "map_of (entries w) (dir, name @ ''.work'')")
    case None
    with ent2 same e1(3) have j: "j = fresh_inode w1"
      and ent: "entries w2 = AList.update (dir, name @ ''.work'') j (entries w)"
      by simp_all
    have "\<forall>k. map_of (entries w) k \<noteq> Some j"
    proof
      fix k show "map_of (entries w) k \<noteq> Some j"
        using fresh_inode_entries [of w1 k j] e1(3) j by auto
    qed
    with None ent ino2 e1(4) show ?thesis
      by (simp add: staged_def work_inode_def update_conv')
  next
    case (Some i0)
    with ent2 same e1(3) have "j = i0" and "entries w2 = entries w"
      by simp_all
    with Some ino2 e1(4) show ?thesis
      by (simp add: staged_def work_inode_def fun_upd_idem)
  qed
  from dirFd workFd neq tr env p2 ex nodir' tab2 tab1 obj' st show ?thesis
    by (intro exI [of _ j]) simp
qed

lemma CommittedFile_write_outcome:
  assumes run: "CommittedFile_write this data w = Some (r, w')"
  shows "\<exists>s. write_outcome this data w s r w'"
proof -
  let ?dir = "dirName (filePath this)"
  let ?name = "baseName (filePath this)"
  let ?work = "baseName (filePath this) @ ''.work''"
  let ?d = "alloc_fd w"
  let ?t = "length (trace w)"
  have d0: "0 \<le> ?d" by (rule alloc_fd_nonneg)
  have dfresh: "map_of (fdtab w) ?d = None" by (rule alloc_fd_unbound)
  obtain r1 w1 where c1: "DirFd_ctor ?dir w = (r1, w1)"
    by (cases "DirFd_ctor ?dir w") auto
  note e1 = DirFd_ctor_effect [OF c1]
  show ?thesis
  proof (cases r1)
    case (Inl e)
    with run c1 have res: "r = Inl e" "w' = w1"
      by (simp_all add: CommittedFile_write_def)
    from e1(5) [OF Inl] have tab: "fdtab w1 = fdtab w"
      and e: "e = system_error (errno w1) (buildCommittedFileError ''open'' ?dir [] [] (errno w1))"
      and why: "case verdict_now w of
                  Fault f \<Rightarrow> errno w1 = errno_of f
                | Proceed n \<Rightarrow> cause_at AtOpenDir w ?dir ?name (errno w1)"
      by (simp_all split: verdict.splits)
    from failed_atI [OF why env_kept_refl refl]
    have cause: "failed_at AtOpenDir w ?dir ?name ?t (errno w1)" .
    have "write_outcome this data w AtOpenDir r w'"
      by (rule write_outcomeI [where f = 0 and ns = "[]" and j = 0 and c = "errno w1" and k = 0])
        (use cause in \<open>simp_all add: res e1 tab exit_trace_simps calls_def proceeds_0 e [symmetric]\<close>)
    then show ?thesis ..
  next
    case (Inr dirFd)
    note c1' = c1 [unfolded Inr]
    obtain r2 w2 where c2: "WriteFd_ctor dirFd ?work w1 = (r2, w2)"
      by (cases "WriteFd_ctor dirFd ?work w1") auto
    note e2 = WriteFd_ctor_effect [OF c2]
    from e1(6) [OF Inr] obtain obj where
      dirFd: "dirFd = \<lparr>directory = ?dir, file = [], fd = ?d\<rparr>" and
      v1: "\<exists>n. verdict_now w = Proceed n" and
      look: "lookup_path w ?dir = Inr obj" and
      tab1: "fdtab w1 = (?d, obj) # fdtab w"
      by blast
    from proceeds_Suc [OF proceeds_0 env_kept_refl _ v1, of ?t]
    have p1: "proceeds w ?t 1" by simp
    from e1(1) have len1: "length (trace w1) = ?t + 1" by simp
    from e1(2) have dirs1: "dirs w1 = dirs w" by (simp add: env_kept_def)
    from dirFd d0 have dfd: "fd dirFd = ?d" "0 \<le> fd dirFd" by simp_all
    show ?thesis
    proof (cases r2)
      case (Inl e)
      with run c1' c2 have res: "r = Inl e" "w' = BaseFd_dtor dirFd w2"
        by (simp_all add: CommittedFile_write_def Let_def)
      note x = BaseFd_dtor_effect [OF dfd(2), of w2]
      from e2(3) [OF Inl, unfolded dfd(1)] dirFd have same: "fdtab w2 = fdtab w1" "entries w2 = entries w1"
        "inodes w2 = inodes w1"
        and e: "e = system_error (errno w2)
                      (buildCommittedFileError ''open'' ?dir ?work [] (errno w2))"
        and why0: "case verdict_now w1 of
                    Fault f \<Rightarrow> errno w2 = errno_of f
                  | Proceed n \<Rightarrow>
                      (case map_of (fdtab w1) ?d of
                         None \<Rightarrow> errno w2 = EBADF
                       | Some (FileObj i off) \<Rightarrow> errno w2 = ENOTDIR
                       | Some (DirObj dir) \<Rightarrow> names_dir w1 dir ?work \<and> errno w2 = EISDIR)"
        by simp_all
      have why: "case verdict_now w1 of
                   Fault f \<Rightarrow> errno w2 = errno_of f
                 | Proceed n \<Rightarrow> cause_at AtCreate w ?dir ?name (errno w2)"
      proof (cases "verdict_now w1")
        case (Fault f)
        with why0 show ?thesis by simp
      next
        case (Proceed n)
        show ?thesis
        proof (cases obj)
          case (DirObj d')
          with look lookup_path_DirObj [of w ?dir d'] have "d' = ?dir" by simp
          with Proceed why0 tab1 DirObj look names_dir_kept [OF dirs1] show ?thesis by simp
        next
          case (FileObj i off)
          with Proceed why0 tab1 look show ?thesis by simp
        qed
      qed
      from failed_atI [OF why e1(2) len1]
      have cause: "failed_at AtCreate w ?dir ?name (?t + 1) (errno w2)" .
      from x(5) same tab1 dfd dfresh have tab: "map_of (fdtab w') = map_of (fdtab w)"
        by (simp add: res delete_conv' fun_upd_idem)
      from e1(2) e2(2) x(2) have env: "env_kept w w'"
        unfolding res by (blast intro: env_kept_trans)
      from x(1) e2(1) e1(1) dfd
      have tr: "trace w' = trace w @ [EvOpen ?dir (O_RDONLY OR O_CLOEXEC),
                  EvOpenat ?d ?work create_flags mode_0644, EvClose ?d]"
        unfolding res by simp
      from x(3,4) same e1(3,4) have fs: "entries w' = entries w" "inodes w' = inodes w"
        unfolding res by simp_all
      have "write_outcome this data w AtCreate r w'"
        by (rule write_outcomeI [where f = 0 and ns = "[]" and j = 0 and c = "errno w2" and k = 1])
          (use p1 cause in \<open>simp_all add: env tab tr fs res(1) exit_trace_simps calls_def e [symmetric]\<close>)
      then show ?thesis ..
    next
      case (Inr workFileFd)
      note c2' = c2 [unfolded Inr]
      let ?f = "alloc_fd w1"
      from staging_opened [OF c1' c2'] obtain j where
        workFd: "workFileFd = \<lparr>directory = ?dir, file = ?work, fd = ?f\<rparr>" and
        neq: "?f \<noteq> ?d" and
        tr2: "trace w2 = trace w @ [EvOpen ?dir (O_RDONLY OR O_CLOEXEC),
                                    EvOpenat ?d ?work create_flags mode_0644]" and
        env2: "env_kept w w2" and
        p2: "proceeds w ?t 2" and
        isdir: "?dir \<in> set (dirs w)" and
        tab2: "fdtab w2 = (?f, FileObj j 0) # (?d, DirObj ?dir) # fdtab w" and
        st2: "staged ?dir ?name j [] w w2"
        by blast
      from tr2 have len2: "length (trace w2) = ?t + 2" by simp
      from env2 have vs2: "verdicts w2 = verdicts w" by (simp add: env_kept_def)
      have f0: "0 \<le> ?f" by (rule alloc_fd_nonneg)
      from workFd f0 have ffd: "fd workFileFd = ?f" "0 \<le> fd workFileFd" by simp_all
      from tab1 alloc_fd_unbound [of w1] neq have ffresh: "map_of (fdtab w) ?f = None"
        by (simp split: if_splits)
      from st2 have wi: "work_inode ?dir ?name j w" and ino2: "inodes w2 = (inodes w)(j := [])"
        and nm2: "map_of (entries w2) = (map_of (entries w))((?dir, ?work) \<mapsto> j)"
        by (simp_all add: staged_def)
      obtain r3 w3 where c3: "writeAll workFileFd data (length data) w2 = Some (r3, w3)"
        using run c1' c2'
        by (cases "writeAll workFileFd data (length data) w2")
          (auto simp: CommittedFile_write_def Let_def)
      from writeAll_loop_effect [OF c3 [unfolded writeAll_def]]
      have ws: "written_so_far workFileFd data 0 w2 (r3, w3)" by simp
      from tab2 ffd have start: "map_of (fdtab w2) (fd workFileFd) = Some (FileObj j 0)"
        by simp
      from ino2 have empty: "inodes w2 j = []" by simp
      from written_from_start [OF ws start empty, unfolded vs2 len2 ffd(1)] obtain ns where
        rep: "reported (verdicts w) (?t + 2) data ns" and
        ino3: "inodes w3 = (inodes w2)(j := take (sum_list ns) data)" and
        tab3: "map_of (fdtab w3) = (map_of (fdtab w2))(?f \<mapsto> FileObj j (sum_list ns))" and
        env3: "env_kept w2 w3" and ent3: "entries w3 = entries w2" and
        res3: "case r3 of
                 Inr u \<Rightarrow>
                   sum_list ns = length data \<and>
                   trace w3 = trace w2 @ map (EvWrite ?f) (chunks data ns)
               | Inl e \<Rightarrow>
                   sum_list ns < length data \<and>
                   trace w3 = trace w2 @ map (EvWrite ?f)
                     (chunks data ns @ [drop (sum_list ns) data]) \<and>
                   e = write_error workFileFd w3 \<and>
                   (\<exists>f. verdicts w (?t + 2 + length ns) = Fault f \<and> errno w3 = errno_of f)"
        by blast
      let ?k = "sum_list ns"
      let ?n = "length ns"
      from proceeds_add [OF p2 rep] have p3: "proceeds w ?t (2 + ?n)" .
      from ino3 ino2 have ino3': "inodes w3 = (inodes w)(j := take ?k data)" by simp
      from tab3 tab2
      have tab3': "map_of (fdtab w3) = (map_of (fdtab w))(?d \<mapsto> DirObj ?dir, ?f \<mapsto> FileObj j ?k)"
        by (simp add: fun_eq_iff)
      from env2 env3 have env3': "env_kept w w3" by (rule env_kept_trans)
      text \<open>Destroying both handles while both descriptors are open.\<close>
      have both_closed: "env_kept w (BaseFd_dtor dirFd (BaseFd_dtor workFileFd v)) \<and>
          map_of (fdtab (BaseFd_dtor dirFd (BaseFd_dtor workFileFd v))) = map_of (fdtab w) \<and>
          trace (BaseFd_dtor dirFd (BaseFd_dtor workFileFd v)) = trace v @ [EvClose ?f, EvClose ?d] \<and>
          entries (BaseFd_dtor dirFd (BaseFd_dtor workFileFd v)) = entries v \<and>
          inodes (BaseFd_dtor dirFd (BaseFd_dtor workFileFd v)) = inodes v"
        if "env_kept w v" and "map_of (fdtab v) = (map_of (fdtab w))(?d \<mapsto> DirObj ?dir, ?f \<mapsto> obj')"
        for v obj'
      proof -
        note x = BaseFd_dtor_effect [OF ffd(2), of v]
        note y = BaseFd_dtor_effect [OF dfd(2), of "BaseFd_dtor workFileFd v"]
        from that(1) x(2) y(2) have "env_kept w (BaseFd_dtor dirFd (BaseFd_dtor workFileFd v))"
          by (blast intro: env_kept_trans)
        moreover from x(5) y(5) that(2) ffd dfd ffresh dfresh neq
        have "map_of (fdtab (BaseFd_dtor dirFd (BaseFd_dtor workFileFd v))) = map_of (fdtab w)"
          by (simp add: delete_conv' fun_eq_iff)
        ultimately show ?thesis
          using x y ffd dfd by simp
      qed
      text \<open>Destroying the directory handle once the work file is closed.\<close>
      have dir_closed: "env_kept w (BaseFd_dtor dirFd (BaseFd_dtor h v)) \<and>
          map_of (fdtab (BaseFd_dtor dirFd (BaseFd_dtor h v))) = map_of (fdtab w) \<and>
          trace (BaseFd_dtor dirFd (BaseFd_dtor h v)) = trace v @ [EvClose ?d] \<and>
          entries (BaseFd_dtor dirFd (BaseFd_dtor h v)) = entries v \<and>
          inodes (BaseFd_dtor dirFd (BaseFd_dtor h v)) = inodes v"
        if "env_kept w v" and "map_of (fdtab v) = (map_of (fdtab w))(?d \<mapsto> DirObj ?dir)"
          and "fd h < 0"
        for v h
      proof -
        from that(3) have h: "BaseFd_dtor h v = v" by (rule BaseFd_dtor_closed)
        note y = BaseFd_dtor_effect [OF dfd(2), of v]
        from that(1) y(2) have "env_kept w (BaseFd_dtor dirFd v)"
          by (blast intro: env_kept_trans)
        moreover from y(5) that(2) dfd dfresh
        have "map_of (fdtab (BaseFd_dtor dirFd v)) = map_of (fdtab w)"
          by (simp add: delete_conv' fun_eq_iff)
        ultimately show ?thesis
          using y dfd h by simp
      qed
      text \<open>A step that can only fail by the environment.\<close>
      have by_env: "failed_at s w ?dir ?name (length (trace v)) (errno v')"
        if "env_kept w v" and "\<exists>f. verdict_now v = Fault f \<and> errno v' = errno_of f" for s v v'
      proof -
        from that(2) have "case verdict_now v of
            Fault f \<Rightarrow> errno v' = errno_of f
          | Proceed n \<Rightarrow> cause_at s w ?dir ?name (errno v')"
          by auto
        from failed_atI [OF this that(1) refl] show ?thesis .
      qed
      show ?thesis
      proof (cases r3)
        case (Inl e)
        with run c1' c2' c3
        have res: "r = Inl e" "w' = BaseFd_dtor dirFd (BaseFd_dtor workFileFd w3)"
          by (simp_all add: CommittedFile_write_def Let_def)
        from res3 Inl workFd obtain ft where
          less: "?k < length data" and
          tr3: "trace w3 = trace w2 @ map (EvWrite ?f) (chunks data ns @ [drop ?k data])" and
          e: "e = system_error (errno w3)
                       (buildCommittedFileError ''write'' ?dir ?work [] (errno w3))" and
          ft: "verdicts w (?t + 2 + ?n) = Fault ft" "errno w3 = errno_of ft"
          by (auto simp: write_error_def)
        from tr3 tr2 have tr3': "trace w3 = trace w @ [EvOpen ?dir (O_RDONLY OR O_CLOEXEC),
            EvOpenat ?d ?work create_flags mode_0644]
            @ map (EvWrite ?f) (chunks data ns @ [drop ?k data])"
          by simp
        note z = both_closed [OF env3' tab3', folded res]
        from wi ino3' nm2 ent3 z have fs: "staged ?dir ?name j (take ?k data) w w'"
          by (simp add: staged_def)
        from ft have cause: "failed_at AtWrite w ?dir ?name (?t + (2 + ?n)) (errno w3)"
          by (simp add: failed_at_def add.assoc)
        have "write_outcome this data w AtWrite r w'"
          by (rule write_outcomeI [where f = ?f and ns = ns and j = j and c = "errno w3"
                and k = "2 + ?n"])
            (use p3 cause rep in \<open>simp_all add: z tr3' less fs res(1) exit_trace_simps calls_def e [symmetric]\<close>)
        then show ?thesis ..
      next
        case (Inr u3)
        with res3 have kk: "?k = length data"
          and tr3: "trace w3 = trace w2 @ map (EvWrite ?f) (chunks data ns)"
          by simp_all
        let ?bufs = "chunks data ns"
        from tr3 tr2 have tr3': "trace w3 = trace w @ [EvOpen ?dir (O_RDONLY OR O_CLOEXEC),
            EvOpenat ?d ?work create_flags mode_0644] @ map (EvWrite ?f) ?bufs"
          by simp
        then have len3: "length (trace w3) = ?t + (2 + ?n)" by simp
        note c3' = c3 [unfolded Inr]
        obtain r4 w4 where c4: "BaseFd_sync workFileFd w3 = (r4, w4)"
          by (cases "BaseFd_sync workFileFd w3") auto
        note e4 = BaseFd_sync_effect [OF c4]
        from e4 tab3'
        have tab4: "map_of (fdtab w4) = (map_of (fdtab w))(?d \<mapsto> DirObj ?dir, ?f \<mapsto> FileObj j ?k)"
          by simp
        from env3' e4(2) have env4: "env_kept w w4" by (rule env_kept_trans)
        from e4(1) tr3' ffd have tr4: "trace w4 = trace w @ [EvOpen ?dir (O_RDONLY OR O_CLOEXEC),
          EvOpenat ?d ?work create_flags mode_0644] @ map (EvWrite ?f) ?bufs @ [EvFsync ?f]"
          by simp
        then have len4: "length (trace w4) = ?t + (3 + ?n)" by simp
        from wi ino3' nm2 ent3 e4(3,4) kk have st4: "staged ?dir ?name j data w w4"
          by (simp add: staged_def)
        show ?thesis
        proof (cases r4)
          case (Inl e)
          with run c1' c2' c3' c4
          have res: "r = Inl e" "w' = BaseFd_dtor dirFd (BaseFd_dtor workFileFd w4)"
            by (simp_all add: CommittedFile_write_def Let_def)
          from e4(6) [OF Inl] workFd tab3' ffd
          have e: "e = system_error (errno w4)
                         (buildCommittedFileError ''fsync'' ?dir ?work [] (errno w4))"
            and "\<exists>f. verdict_now w3 = Fault f \<and> errno w4 = errno_of f"
            by (auto split: verdict.splits)
          from by_env [OF env3' this(2)] len3
          have cause: "failed_at AtFsyncFile w ?dir ?name (?t + (2 + ?n)) (errno w4)" by simp
          note z = both_closed [OF env4 tab4, folded res]
          from st4 z have fs: "staged ?dir ?name j data w w'"
            by (simp add: staged_def)
          have "write_outcome this data w AtFsyncFile r w'"
            by (rule write_outcomeI [where f = ?f and ns = ns and j = j and c = "errno w4"
                  and k = "2 + ?n"])
              (use p3 cause rep in \<open>simp_all add: z tr4 kk fs res(1) exit_trace_simps calls_def e [symmetric]\<close>)
          then show ?thesis ..
        next
          case (Inr u4)
          note c4' = c4 [unfolded Inr]
          from proceeds_Suc [OF p3 env3' len3 e4(7) [OF Inr]]
          have p4: "proceeds w ?t (3 + ?n)" by (simp add: eval_nat_numeral)
          obtain r5 wf1 w5 where c5: "BaseFd_close workFileFd w4 = (r5, wf1, w5)"
            by (cases "BaseFd_close workFileFd w4") auto
          note e5 = BaseFd_close_effect [OF c5 ffd(2)]
          from e5(1) have wf1: "fd wf1 < 0" by simp
          from e5(6) tab4 ffd ffresh neq
          have tab5: "map_of (fdtab w5) = (map_of (fdtab w))(?d \<mapsto> DirObj ?dir)"
            by (simp add: delete_conv' fun_eq_iff)
          from env4 e5(3) have env5: "env_kept w w5" by (rule env_kept_trans)
          from e5(2) tr4 ffd have tr5: "trace w5 = trace w @ [EvOpen ?dir (O_RDONLY OR O_CLOEXEC),
            EvOpenat ?d ?work create_flags mode_0644] @ map (EvWrite ?f) ?bufs
            @ [EvFsync ?f, EvClose ?f]"
            by simp
          then have len5: "length (trace w5) = ?t + (4 + ?n)" by simp
          from st4 e5(4,5) have st5: "staged ?dir ?name j data w w5"
            by (simp add: staged_def)
          show ?thesis
          proof (cases r5)
            case (Inl e)
            with run c1' c2' c3' c4' c5
            have res: "r = Inl e" "w' = BaseFd_dtor dirFd (BaseFd_dtor wf1 w5)"
              by (simp_all add: CommittedFile_write_def Let_def)
            from e5(7) [OF Inl] workFd tab4 ffd
            have e: "e = system_error (errno w5)
                           (buildCommittedFileError ''close'' ?dir ?work [] (errno w5))"
              and "\<exists>f. verdict_now w4 = Fault f \<and> errno w5 = errno_of f"
              by auto
            from by_env [OF env4 this(2)] len4
            have cause: "failed_at AtCloseFile w ?dir ?name (?t + (3 + ?n)) (errno w5)" by simp
            note z = dir_closed [OF env5 tab5 wf1, folded res]
            from st5 z have fs: "staged ?dir ?name j data w w'"
              by (simp add: staged_def)
            have "write_outcome this data w AtCloseFile r w'"
              by (rule write_outcomeI [where f = ?f and ns = ns and j = j and c = "errno w5"
                    and k = "3 + ?n"])
                (use p4 cause rep in \<open>simp_all add: z tr5 kk fs res(1) exit_trace_simps calls_def e [symmetric]\<close>)
            then show ?thesis ..
          next
            case (Inr u5)
            note c5' = c5 [unfolded Inr]
            from proceeds_Suc [OF p4 env4 len4 e5(8) [OF Inr]]
            have p5: "proceeds w ?t (4 + ?n)" by (simp add: eval_nat_numeral)
            obtain r6 w6 where c6: "DirFd_renameFile dirFd ?work ?name w5 = (r6, w6)"
              by (cases "DirFd_renameFile dirFd ?work ?name w5") auto
            note e6 = DirFd_renameFile_effect [OF c6]
            from e6(4) tab5 have tab6: "map_of (fdtab w6) = (map_of (fdtab w))(?d \<mapsto> DirObj ?dir)"
              by simp
            from env5 e6(2) have env6: "env_kept w w6" by (rule env_kept_trans)
            from env5 have dirs5: "dirs w5 = dirs w" by (simp add: env_kept_def)
            from e6(1) tr5 dfd have tr6: "trace w6 = trace w @ [EvOpen ?dir (O_RDONLY OR O_CLOEXEC),
              EvOpenat ?d ?work create_flags mode_0644] @ map (EvWrite ?f) ?bufs
              @ [EvFsync ?f, EvClose ?f, EvRenameat ?d ?work ?d ?name]"
              by simp
            then have len6: "length (trace w6) = ?t + (5 + ?n)" by simp
            from st5 have bound5: "map_of (entries w5) (?dir, ?work) = Some j"
              by (simp add: staged_def)
            show ?thesis
            proof (cases r6)
              case (Inl e)
              with run c1' c2' c3' c4' c5' c6
              have res: "r = Inl e" "w' = BaseFd_dtor dirFd (BaseFd_dtor wf1 w6)"
                by (simp_all add: CommittedFile_write_def Let_def)
              from e6(5) [OF Inl] dirFd tab5 dfd bound5
              have ent6: "entries w6 = entries w5" and
                e: "e = system_error (errno w6)
                           (buildCommittedFileError ''rename'' ?dir ?work ?name (errno w6))" and
                why0: "case verdict_now w5 of
                         Fault f \<Rightarrow> errno w6 = errno_of f
                       | Proceed n \<Rightarrow>
                           if special_name ?name then errno w6 = EBUSY
                           else names_dir w5 ?dir ?name \<and> errno w6 = EISDIR"
                by (simp_all split: verdict.splits)
              from why0 isdir names_dir_kept [OF dirs5, of ?dir ?name]
              have why: "case verdict_now w5 of
                           Fault f \<Rightarrow> errno w6 = errno_of f
                         | Proceed n \<Rightarrow> cause_at AtRename w ?dir ?name (errno w6)"
                by (auto split: verdict.splits if_splits)
              from failed_atI [OF why env5 len5]
              have cause: "failed_at AtRename w ?dir ?name (?t + (4 + ?n)) (errno w6)" .
              note z = dir_closed [OF env6 tab6 wf1, folded res]
              from st5 z ent6 e6(3) have fs: "staged ?dir ?name j data w w'"
                by (simp add: staged_def)
              have "write_outcome this data w AtRename r w'"
                by (rule write_outcomeI [where f = ?f and ns = ns and j = j and c = "errno w6"
                      and k = "4 + ?n"])
                  (use p5 cause rep in \<open>simp_all add: z tr6 kk fs res(1) exit_trace_simps calls_def e [symmetric]\<close>)
              then show ?thesis ..
            next
              case (Inr u6)
              note c6' = c6 [unfolded Inr]
              from proceeds_Suc [OF p5 env5 len5] e6(6) [OF Inr]
              have p6: "proceeds w ?t (5 + ?n)" by (simp add: eval_nat_numeral)
              from e6(6) [OF Inr] tab5 dfd st5 obtain
                ren: "if map_of (entries w5) (?dir, ?name) = Some j then entries w6 = entries w5
                      else entries w6 = AList.update (?dir, ?name) j
                                          (AList.delete (?dir, ?work) (entries w5))"
                by (auto simp: staged_def)
              have wn: "(?dir, ?work) \<noteq> (?dir, ?name)" by simp
              from st5 ren wn e6(3) have cm6: "committed ?dir ?name j data w w6"
                by (auto simp: staged_def committed_def update_conv' delete_conv' fun_eq_iff
                      split: if_splits)
              obtain r7 w7 where c7: "BaseFd_sync dirFd w6 = (r7, w7)"
                by (cases "BaseFd_sync dirFd w6") auto
              note e7 = BaseFd_sync_effect [OF c7]
              from e7(5) tab6 have tab7: "map_of (fdtab w7) = (map_of (fdtab w))(?d \<mapsto> DirObj ?dir)"
                by simp
              from env6 e7(2) have env7: "env_kept w w7" by (rule env_kept_trans)
              from e7(1) tr6 dfd have tr7: "trace w7 = trace w @ [EvOpen ?dir (O_RDONLY OR O_CLOEXEC),
                EvOpenat ?d ?work create_flags mode_0644] @ map (EvWrite ?f) ?bufs
                @ [EvFsync ?f, EvClose ?f, EvRenameat ?d ?work ?d ?name, EvFsync ?d]"
                by simp
              then have len7: "length (trace w7) = ?t + (6 + ?n)" by simp
              from cm6 e7(3,4) have cm7: "committed ?dir ?name j data w w7"
                by (simp add: committed_def)
              show ?thesis
              proof (cases r7)
                case (Inl e)
                with run c1' c2' c3' c4' c5' c6' c7
                have res: "r = Inl e" "w' = BaseFd_dtor dirFd (BaseFd_dtor wf1 w7)"
                  by (simp_all add: CommittedFile_write_def Let_def)
                from e7(6) [OF Inl] dirFd tab6 dfd
                have e: "e = system_error (errno w7)
                             (buildCommittedFileError ''fsync'' ?dir [] [] (errno w7))"
                  and "\<exists>f. verdict_now w6 = Fault f \<and> errno w7 = errno_of f"
                  by (auto split: verdict.splits)
                from by_env [OF env6 this(2)] len6
                have cause: "failed_at AtFsyncDir w ?dir ?name (?t + (5 + ?n)) (errno w7)" by simp
                note z = dir_closed [OF env7 tab7 wf1, folded res]
                from cm7 z have fs: "committed ?dir ?name j data w w'"
                  by (simp add: committed_def)
                have "write_outcome this data w AtFsyncDir r w'"
                  by (rule write_outcomeI [where f = ?f and ns = ns and j = j and c = "errno w7"
                        and k = "5 + ?n"])
                    (use p6 cause rep in \<open>simp_all add: z tr7 kk fs res(1) exit_trace_simps calls_def e [symmetric]\<close>)
                then show ?thesis ..
              next
                case (Inr u7)
                note c7' = c7 [unfolded Inr]
                from proceeds_Suc [OF p6 env6 len6 e7(7) [OF Inr]]
                have p7: "proceeds w ?t (6 + ?n)" by (simp add: eval_nat_numeral)
                obtain r8 df1 w8 where c8: "BaseFd_close dirFd w7 = (r8, df1, w8)"
                  by (cases "BaseFd_close dirFd w7") auto
                note e8 = BaseFd_close_effect [OF c8 dfd(2)]
                from e8(1) have df1: "fd df1 < 0" by simp
                from e8(6) tab7 dfd dfresh
                have tab8: "map_of (fdtab w8) = map_of (fdtab w)"
                  by (simp add: delete_conv' fun_eq_iff)
                from env7 e8(3) have env8: "env_kept w w8" by (rule env_kept_trans)
                from e8(2) tr7 dfd
                have tr8: "trace w8 = trace w @ commit_protocol ?dir ?name ?d ?f ?bufs"
                  by (simp add: commit_protocol_def)
                from cm7 e8(4,5) have cm8: "committed ?dir ?name j data w w8"
                  by (simp add: committed_def)
                from run c1' c2' c3' c4' c5' c6' c7' c8 wf1 df1
                have res: "w' = w8" "r = r8"
                  by (auto simp: CommittedFile_write_def Let_def BaseFd_dtor_closed
                        split: sum.splits)
                show ?thesis
                proof (cases r8)
                  case (Inl e)
                  from e8(7) [OF Inl] dirFd tab7 dfd
                  have e: "e = system_error (errno w8)
                               (buildCommittedFileError ''close'' ?dir [] [] (errno w8))"
                    and "\<exists>f. verdict_now w7 = Fault f \<and> errno w8 = errno_of f"
                    by auto
                  from by_env [OF env7 this(2)] len7
                  have cause: "failed_at AtCloseDir w ?dir ?name (?t + (6 + ?n)) (errno w8)"
                    by simp
                  have "write_outcome this data w AtCloseDir r w'"
                    by (rule write_outcomeI [where f = ?f and ns = ns and j = j and c = "errno w8"
                          and k = "6 + ?n"])
                      (use p7 cause rep in \<open>simp_all add: res Inl env8 tab8 tr8 kk cm8 exit_trace_simps calls_def e [symmetric]\<close>)
                  then show ?thesis ..
                next
                  case (Inr u8)
                  from proceeds_Suc [OF p7 env7 len7 e8(8) [OF Inr]]
                  have p8: "proceeds w ?t (7 + ?n)" by (simp add: eval_nat_numeral)
                  have "write_outcome this data w Done r w'"
                    by (rule write_outcomeI [where f = ?f and ns = ns and j = j and c = 0
                          and k = "7 + ?n"])
                      (use p8 rep in \<open>simp_all add: res Inr env8 tab8 tr8 kk cm8 exit_trace_simps calls_def\<close>)
                  then show ?thesis ..
                qed
              qed
            qed
          qed
        qed
      qed
    qed
  qed
qed

section \<open>The read loop and the reader\<close>

lemma sys_read_effect:
  assumes "sys_read r c w = (len, buf, w1)"
  shows "trace w1 = trace w @ [EvRead r c]"
    and "env_kept w w1"
    and "entries w1 = entries w"
    and "inodes w1 = inodes w"
    and "len < 0 \<Longrightarrow> fdtab w1 = fdtab w \<and>
           (case verdict_now w of
              Fault f \<Rightarrow> errno w1 = errno_of f
            | Proceed m \<Rightarrow>
                (case map_of (fdtab w) r of
                   None \<Rightarrow> errno w1 = EBADF
                 | Some (DirObj d) \<Rightarrow> errno w1 = EISDIR
                 | Some (FileObj i off) \<Rightarrow> False))"
    and "0 \<le> len \<Longrightarrow> (\<exists>m. verdict_now w = Proceed m) \<and>
           (\<exists>i off. map_of (fdtab w) r = Some (FileObj i off) \<and>
              buf = take (nat len) (drop off (inodes w i)) \<and> length buf = nat len \<and>
              map_of (fdtab w1) = (map_of (fdtab w))(r \<mapsto> FileObj i (off + nat len)) \<and>
              (0 < c \<and> len = 0 \<longrightarrow> length (inodes w i) \<le> off))"
proof -
  from assms have r: "len = fst (sys_read r c w)" and b: "buf = fst (snd (sys_read r c w))"
    and w1: "w1 = snd (snd (sys_read r c w))"
    by simp_all
  show "trace w1 = trace w @ [EvRead r c]"
    unfolding w1 by (rule sys_read_trace)
  show "env_kept w w1"
    unfolding w1
    by (simp add: sys_read_def kernel_defs split: option.splits verdict.splits fobj.splits)
  show "entries w1 = entries w"
    unfolding w1
    by (simp add: sys_read_def kernel_defs split: option.splits verdict.splits fobj.splits)
  show "inodes w1 = inodes w"
    unfolding w1
    by (simp add: sys_read_def kernel_defs split: option.splits verdict.splits fobj.splits)
  show "len < 0 \<Longrightarrow> fdtab w1 = fdtab w \<and>
           (case verdict_now w of
              Fault f \<Rightarrow> errno w1 = errno_of f
            | Proceed m \<Rightarrow>
                (case map_of (fdtab w) r of
                   None \<Rightarrow> errno w1 = EBADF
                 | Some (DirObj d) \<Rightarrow> errno w1 = EISDIR
                 | Some (FileObj i off) \<Rightarrow> False))"
    unfolding w1 r
    by (auto simp: sys_read_def kernel_defs split: option.splits verdict.splits fobj.splits)
  show "0 \<le> len \<Longrightarrow> (\<exists>m. verdict_now w = Proceed m) \<and>
           (\<exists>i off. map_of (fdtab w) r = Some (FileObj i off) \<and>
              buf = take (nat len) (drop off (inodes w i)) \<and> length buf = nat len \<and>
              map_of (fdtab w1) = (map_of (fdtab w))(r \<mapsto> FileObj i (off + nat len)) \<and>
              (0 < c \<and> len = 0 \<longrightarrow> length (inodes w i) \<le> off))"
    unfolding w1 r b
    by (auto simp: sys_read_def kernel_defs update_conv' min_def max_def
          split: option.splits verdict.splits fobj.splits)
qed

lemma proceeds_kept: "verdicts w1 = verdicts w \<Longrightarrow> proceeds w1 t n = proceeds w t n"
  by (simp add: proceeds_def)

lemma proceeds_first:
  assumes "\<exists>m. verdicts w t = Proceed m" and "proceeds w (Suc t) n"
  shows "proceeds w t (Suc n)"
  unfolding proceeds_def
proof (intro allI impI)
  fix i assume "i < Suc n"
  show "\<exists>m. verdicts w (t + i) = Proceed m"
  proof (cases i)
    case 0
    with assms(1) show ?thesis by simp
  next
    case (Suc k)
    with \<open>i < Suc n\<close> assms(2) show ?thesis by (simp add: proceeds_def)
  qed
qed

lemma proceeds_last: "proceeds w t (Suc n) \<Longrightarrow> \<exists>m. verdicts w (t + n) = Proceed m"
  by (simp add: proceeds_def)

lemma read_loop_effect: "read_result r os w (read_loop r os w)"
proof (induction r os w rule: read_loop.induct)
  case (1 r os w)
  let ?t = "length (trace w)"
  obtain len buf w1 where s: "sys_read r 4096 w = (len, buf, w1)"
    by (cases "sys_read r 4096 w") auto
  note eff = sys_read_effect [OF s]
  from eff(2) have vs: "verdicts w1 = verdicts w" by (simp add: env_kept_def)
  show ?case
  proof (cases "0 < len")
    case False
    with s have res: "read_loop r os w = (len, os, w1)"
      by (simp add: read_loop.simps [of r os w])
    from eff(1) have tr: "trace w1 = trace w @ replicate (Suc 0) (EvRead r 4096)"
      by simp
    have tab: "(map_of (fdtab w1))(r := None) = (map_of (fdtab w))(r := None)"
    proof (cases "len < 0")
      case True
      with eff(5) show ?thesis by simp
    next
      case False
      with eff(6) show ?thesis by auto
    qed
    have final: "if len = 0
        then proceeds w ?t (Suc 0) \<and>
             (\<exists>i off. map_of (fdtab w) r = Some (FileObj i off) \<and> os = os @ drop off (inodes w i))
        else read_refused r (?t + 0) w w1"
    proof (cases "len = 0")
      case True
      with eff(6) have "\<exists>m. verdicts w ?t = Proceed m"
        and "\<exists>i off. map_of (fdtab w) r = Some (FileObj i off) \<and> os = os @ drop off (inodes w i)"
        by (auto simp: verdict_now_def)
      with True proceeds_first [OF _ proceeds_0, of w ?t] show ?thesis by simp
    next
      case nz: False
      with False have "len < 0" by simp
      from eff(5) [OF this] nz show ?thesis
        by (simp add: read_refused_def verdict_now_def)
    qed
    from False have le: "len \<le> 0" by simp
    from tr final proceeds_0 [of w ?t]
    have ex: "\<exists>n. trace w1 = trace w @ replicate (Suc n) (EvRead r 4096) \<and>
        proceeds w ?t n \<and>
        (n = 0 \<or> (\<exists>i off. map_of (fdtab w) r = Some (FileObj i off))) \<and>
        (if len = 0
         then proceeds w ?t (Suc n) \<and>
              (\<exists>i off. map_of (fdtab w) r = Some (FileObj i off) \<and> os = os @ drop off (inodes w i))
         else read_refused r (?t + n) w w1)"
      by (intro exI [of _ 0]) simp
    from le eff(2,3,4) tab ex show ?thesis
      unfolding res read_result_def prod.case by blast
  next
    case True
    with s have res: "read_loop r os w = read_loop r (os @ take (nat len) buf) w1"
      by (simp add: read_loop.simps [of r os w])
    obtain len2 os2 w2 where rest: "read_loop r (os @ take (nat len) buf) w1 = (len2, os2, w2)"
      by (cases "read_loop r (os @ take (nat len) buf) w1") auto
    from 1 [of len "(buf, w1)" buf w1] s True rest
    have ih: "read_result r (os @ take (nat len) buf) w1 (len2, os2, w2)"
      by simp
    from True have nonneg: "0 \<le> len" by simp
    from eff(6) [OF nonneg] obtain i off where
      now: "\<exists>m. verdicts w ?t = Proceed m" and
      fdw: "map_of (fdtab w) r = Some (FileObj i off)" and
      buf: "buf = take (nat len) (drop off (inodes w i))" and
      blen: "length buf = nat len" and
      tab1: "map_of (fdtab w1) = (map_of (fdtab w))(r \<mapsto> FileObj i (off + nat len))"
      by (auto simp: verdict_now_def)
    from eff(1) have t1: "length (trace w1) = Suc ?t" by simp
    from ih [unfolded read_result_def prod.case t1 proceeds_kept [OF vs]] obtain n where
      env: "env_kept w1 w2" and ent: "entries w2 = entries w1" and ino: "inodes w2 = inodes w1" and
      le: "len2 \<le> 0" and tr: "trace w2 = trace w1 @ replicate (Suc n) (EvRead r 4096)" and
      tab2: "(map_of (fdtab w2))(r := None) = (map_of (fdtab w1))(r := None)" and
      pr: "proceeds w (Suc ?t) n" and
      fin: "if len2 = 0
            then proceeds w (Suc ?t) (Suc n) \<and>
                 (\<exists>i off. map_of (fdtab w1) r = Some (FileObj i off) \<and>
                    os2 = (os @ take (nat len) buf) @ drop off (inodes w1 i))
            else read_refused r (Suc ?t + n) w1 w2"
      by blast
    from eff(2) env have env': "env_kept w w2" by (rule env_kept_trans)
    from tr eff(1) have tr': "trace w2 = trace w @ replicate (Suc (Suc n)) (EvRead r 4096)"
      by (simp add: replicate_app_Cons_same)
    from tab2 tab1 have tab': "(map_of (fdtab w2))(r := None) = (map_of (fdtab w))(r := None)"
      by simp
    from proceeds_first [OF now pr] have pr': "proceeds w ?t (Suc n)" .
    have fin': "if len2 = 0
        then proceeds w ?t (Suc (Suc n)) \<and>
             (\<exists>i off. map_of (fdtab w) r = Some (FileObj i off) \<and> os2 = os @ drop off (inodes w i))
        else read_refused r (?t + Suc n) w w2"
    proof (cases "len2 = 0")
      case True
      with fin have p: "proceeds w (Suc ?t) (Suc n)"
        and "\<exists>i off. map_of (fdtab w1) r = Some (FileObj i off) \<and>
               os2 = (os @ take (nat len) buf) @ drop off (inodes w1 i)"
        by simp_all
      with tab1 eff(4)
      have "os2 = (os @ take (nat len) buf) @ drop (off + nat len) (inodes w i)"
        by auto
      also have "\<dots> = os @ drop off (inodes w i)"
        unfolding buf by (simp add: add.commute [of off] drop_drop [symmetric] del: drop_drop)
      finally have "\<exists>i off. map_of (fdtab w) r = Some (FileObj i off) \<and>
          os2 = os @ drop off (inodes w i)"
        using fdw by blast
      with True proceeds_first [OF now p] show ?thesis by simp
    next
      case False
      with fin have "read_refused r (Suc ?t + n) w1 w2" by simp
      with tab1 vs have "read_refused r (?t + Suc n) w w2"
        by (auto simp: read_refused_def split: verdict.splits)
      with False show ?thesis by simp
    qed
    from tr' pr' fdw fin'
    have ex: "\<exists>n. trace w2 = trace w @ replicate (Suc n) (EvRead r 4096) \<and>
        proceeds w ?t n \<and>
        (n = 0 \<or> (\<exists>i off. map_of (fdtab w) r = Some (FileObj i off))) \<and>
        (if len2 = 0
         then proceeds w ?t (Suc n) \<and>
              (\<exists>i off. map_of (fdtab w) r = Some (FileObj i off) \<and> os2 = os @ drop off (inodes w i))
         else read_refused r (?t + n) w w2)"
      by (intro exI [of _ "Suc n"]) simp
    from ent eff(3) have ent': "entries w2 = entries w" by simp
    from ino eff(4) have ino': "inodes w2 = inodes w" by simp
    from env' ent' ino' le tab' ex show ?thesis
      unfolding res rest read_result_def prod.case by blast
  qed
qed

lemma sys_read_count:
  assumes "sys_read r c w = (len, buf, w1)" and "0 \<le> len"
    and "verdict_now w = Proceed m" and "map_of (fdtab w) r = Some (FileObj i off)"
  shows "nat len = min (min c (max 1 m)) (length (inodes w i) - off)"
proof -
  from assms(1) have r: "len = fst (sys_read r c w)" by simp
  from assms(3,4) show ?thesis
    unfolding r by (simp add: sys_read_def kernel_defs)
qed

lemma read_loop_chunks:
  "map_of (fdtab w) r = Some (FileObj i off) \<Longrightarrow> read_loop r os w = (len, os', w1) \<Longrightarrow>
     \<exists>ns. trace w1 = trace w @ replicate (Suc (length ns)) (EvRead r 4096) \<and>
          delivered (verdicts w) (length (trace w)) (drop off (inodes w i)) ns \<and>
          (len = 0 \<longrightarrow> sum_list ns = length (inodes w i) - off)"
proof (induction r os w arbitrary: off rule: read_loop.induct)
  case (1 r os w)
  let ?t = "length (trace w)"
  obtain len0 buf v where s: "sys_read r 4096 w = (len0, buf, v)"
    by (cases "sys_read r 4096 w") auto
  note eff = sys_read_effect [OF s]
  from eff(2) have vs: "verdicts v = verdicts w" by (simp add: env_kept_def)
  show ?case
  proof (cases "0 < len0")
    case False
    with s "1.prems"(2) have res: "len = len0" "w1 = v"
      by (simp_all add: read_loop.simps [of r os w])
    have "len0 = 0 \<longrightarrow> length (inodes w i) \<le> off"
      using eff(6) "1.prems"(1) by auto
    with eff(1) have "trace w1 = trace w @ replicate (Suc (length ([] :: nat list))) (EvRead r 4096) \<and>
        delivered (verdicts w) ?t (drop off (inodes w i)) [] \<and>
        (len = 0 \<longrightarrow> sum_list ([] :: nat list) = length (inodes w i) - off)"
      unfolding res by simp
    then show ?thesis by blast
  next
    case True
    then have nonneg: "0 \<le> len0" by simp
    from eff(6) [OF nonneg] "1.prems"(1) obtain m where
      now: "verdict_now w = Proceed m" and
      tab1: "map_of (fdtab v) r = Some (FileObj i (off + nat len0))"
      by auto
    from sys_read_count [OF s nonneg now "1.prems"(1)]
    have k: "nat len0 = min (min 4096 (max 1 m)) (length (drop off (inodes w i)))"
      by simp
    from True have kpos: "0 < nat len0" by simp
    from s True "1.prems"(2) have rest: "read_loop r (os @ take (nat len0) buf) v = (len, os', w1)"
      by (simp add: read_loop.simps [of r os w])
    from "1.IH" [of len0 "(buf, v)" buf v "off + nat len0"] s True tab1 rest
    obtain ns where
      tr: "trace w1 = trace v @ replicate (Suc (length ns)) (EvRead r 4096)" and
      dl: "delivered (verdicts v) (length (trace v)) (drop (off + nat len0) (inodes v i)) ns" and
      fin: "len = 0 \<longrightarrow> sum_list ns = length (inodes v i) - (off + nat len0)"
      by auto
    from eff(1) have t1: "length (trace v) = Suc ?t" by simp
    from tr eff(1)
    have tr': "trace w1 = trace w @ replicate (Suc (length (nat len0 # ns))) (EvRead r 4096)"
      by (simp add: replicate_app_Cons_same)
    from dl have dl': "delivered (verdicts w) (Suc ?t) (drop (nat len0) (drop off (inodes w i))) ns"
      unfolding vs t1 eff(4) by (simp add: add.commute)
    from now have v0: "verdicts w ?t = Proceed m" by (simp add: verdict_now_def)
    from kpos v0 k dl'
    have "delivered (verdicts w) ?t (drop off (inodes w i)) (nat len0 # ns)"
      by simp
    moreover from k have "nat len0 \<le> length (inodes w i) - off" by simp
    with fin eff(4) have "len = 0 \<longrightarrow> sum_list (nat len0 # ns) = length (inodes w i) - off"
      by auto
    ultimately show ?thesis using tr' by blast
  qed
qed

lemma new_events_append [simp]: "trace w1 = trace w @ xs \<Longrightarrow> new_events w w1 = xs"
  by (simp add: new_events_def)

lemma readFile_outcome:
  assumes run: "readFile path w = (r, w')"
  shows "map_of (fdtab w') = map_of (fdtab w)"
    and "env_kept w w'"
    and "entries w' = entries w"
    and "inodes w' = inodes w"
    and "read_outcome path w r w'"
proof -
  let ?t = "length (trace w)"
  let ?fd = "alloc_fd w"
  obtain r0 w1 where c0: "sys_open path read_only w = (r0, w1)"
    by (cases "sys_open path read_only w") auto
  note e0 = sys_open_effect [OF c0]
  have all: "map_of (fdtab w') = map_of (fdtab w) \<and> env_kept w w' \<and> entries w' = entries w \<and>
      inodes w' = inodes w \<and> read_outcome path w r w'"
  proof (cases "r0 = - 1")
    case True
    with run c0 have res: "r = Inl (system_error (errno w1)
        (buildCommittedFileReadError ''open'' path (errno w1)))" "w' = w1"
      by (auto simp: readFile_def read_only_def)
    from e0(1) have ev: "new_events w w1 = [EvOpen path read_only]" by simp
    from e0(5) [OF True] ev have "read_outcome path w r w1"
      unfolding read_outcome_def Let_def res(1)
      by (auto simp: verdict_now_def split: verdict.splits sum.splits)
    with e0(2,3,4) e0(5) [OF True] show ?thesis
      unfolding res(2) by simp
  next
    case False
    from e0(6) [OF False] obtain obj where
      r0: "r0 = ?fd" and v0: "\<exists>m. verdicts w ?t = Proceed m" and
      look: "lookup_path w path = Inr obj" and
      tab1: "fdtab w1 = (?fd, obj) # fdtab w"
      by (auto simp: verdict_now_def)
    from e0(2) have vs: "verdicts w1 = verdicts w" by (simp add: env_kept_def)
    from e0(1) have t1: "length (trace w1) = Suc ?t" by simp
    obtain len os w2 where c1: "read_loop ?fd [] w1 = (len, os, w2)"
      by (cases "read_loop ?fd [] w1") auto
    from read_loop_effect [of ?fd "[]" w1, unfolded c1 read_result_def prod.case t1
        proceeds_kept [OF vs]]
    obtain n where
      env: "env_kept w1 w2" and ent: "entries w2 = entries w1" and ino: "inodes w2 = inodes w1" and
      le: "len \<le> 0" and tr: "trace w2 = trace w1 @ replicate (Suc n) (EvRead ?fd 4096)" and
      tab2: "(map_of (fdtab w2))(?fd := None) = (map_of (fdtab w1))(?fd := None)" and
      pr: "proceeds w (Suc ?t) n" and
      many: "n = 0 \<or> (\<exists>i off. map_of (fdtab w1) ?fd = Some (FileObj i off))" and
      fin: "if len = 0
            then proceeds w (Suc ?t) (Suc n) \<and>
                 (\<exists>i off. map_of (fdtab w1) ?fd = Some (FileObj i off) \<and>
                    os = [] @ drop off (inodes w1 i))
            else read_refused ?fd (Suc ?t + n) w1 w2"
      by blast
    obtain c w3 where c2: "sys_close ?fd w2 = (c, w3)"
      by (cases "sys_close ?fd w2") auto
    note e2 = sys_close_effect [OF c2]
    from run c0 r0 False c1 c2 have w': "w' = w3"
      by (auto simp: readFile_def read_only_def Let_def split: if_splits)
    from e2(5) tab2 tab1 alloc_fd_unbound [of w]
    have tab: "map_of (fdtab w') = map_of (fdtab w)"
      unfolding w' by (simp add: delete_conv' fun_eq_iff)
    from e0(2) env e2(2) have env': "env_kept w w'"
      unfolding w' by (blast intro: env_kept_trans)
    from e0(3) ent e2(3) have ent': "entries w' = entries w" unfolding w' by simp
    from e0(4) ino e2(4) have ino': "inodes w' = inodes w" unfolding w' by simp
    from e2(1) tr e0(1)
    have "trace w' = trace w @ EvOpen path read_only
                # replicate (Suc n) (EvRead ?fd 4096) @ [EvClose ?fd]"
      unfolding w' by simp
    then have ev: "new_events w w' = EvOpen path read_only
                # replicate (Suc n) (EvRead ?fd 4096) @ [EvClose ?fd]"
      by simp
    have "read_outcome path w r w'"
    proof (cases obj)
      case (DirObj d)
      with many tab1 have n: "n = 0" by simp
      have neg: "len < 0"
      proof (rule ccontr)
        assume "\<not> len < 0"
        with le have "len = 0" by simp
        with fin tab1 DirObj show False by simp
      qed
      with run c0 r0 \<open>r0 \<noteq> - 1\<close> c1 c2
      have res: "r = Inl (system_error (errno w2)
          (buildCommittedFileReadError ''read'' path (errno w2)))"
        by (auto simp: readFile_def read_only_def Let_def)
      from neg fin have "read_refused ?fd (Suc ?t + n) w1 w2" by simp
      with tab1 vs n DirObj
      have "case verdicts w (Suc ?t) of
              Fault f \<Rightarrow> errno w2 = errno_of f
            | Proceed m' \<Rightarrow> errno w2 = EISDIR"
        by (auto simp: read_refused_def split: verdict.splits)
      with v0 look ev n DirObj show ?thesis
        unfolding read_outcome_def Let_def res
        by (auto split: verdict.splits)
    next
      case (FileObj i off)
      from look FileObj lookup_path_FileObj [of w path i off] have off: "off = 0" by simp
      from tab1 FileObj off have fd1: "map_of (fdtab w1) ?fd = Some (FileObj i 0)" by simp
      from read_loop_chunks [OF fd1 c1] obtain ns where
        tr1: "trace w2 = trace w1 @ replicate (Suc (length ns)) (EvRead ?fd 4096)" and
        dl: "delivered (verdicts w1) (length (trace w1)) (drop 0 (inodes w1 i)) ns" and
        total: "len = 0 \<longrightarrow> sum_list ns = length (inodes w1 i) - 0"
        by blast
      from tr tr1 have "replicate (Suc n) (EvRead ?fd 4096) = replicate (Suc (length ns)) (EvRead ?fd 4096)"
        by simp
      then have "length (replicate (Suc n) (EvRead ?fd 4096)) = length (replicate (Suc (length ns)) (EvRead ?fd 4096))"
        by (rule arg_cong)
      then have n: "n = length ns" by simp
      from dl have dl': "delivered (verdicts w) (Suc ?t) (inodes w i) ns"
        unfolding vs t1 e0(4) by simp
      have last: "case verdicts w (Suc ?t + length ns) of
          Fault f \<Rightarrow>
            r = Inl (system_error (errno_of f)
                  (buildCommittedFileReadError ''read'' path (errno_of f)))
        | Proceed m' \<Rightarrow> sum_list ns = length (inodes w i) \<and> r = Inr (inodes w i)"
      proof (cases "len = 0")
        case True
        with run c0 r0 \<open>r0 \<noteq> - 1\<close> c1 c2 have res: "r = Inr os"
          by (auto simp: readFile_def read_only_def Let_def)
        from True fin have p: "proceeds w (Suc ?t) (Suc n)"
          and "\<exists>i off. map_of (fdtab w1) ?fd = Some (FileObj i off) \<and> os = drop off (inodes w1 i)"
          by simp_all
        with fd1 have os: "os = inodes w1 i" by auto
        with e0(4) res have "r = Inr (inodes w i)" by simp
        moreover from True total e0(4) have "sum_list ns = length (inodes w i)" by simp
        ultimately show ?thesis using proceeds_last [OF p] n by auto
      next
        case False
        with le have neg: "len < 0" by simp
        with run c0 r0 \<open>r0 \<noteq> - 1\<close> c1 c2
        have res: "r = Inl (system_error (errno w2)
            (buildCommittedFileReadError ''read'' path (errno w2)))"
          by (auto simp: readFile_def read_only_def Let_def)
        from False fin have "read_refused ?fd (Suc ?t + n) w1 w2" by simp
        with fd1 vs n res show ?thesis
          by (auto simp: read_refused_def split: verdict.splits)
      qed
      from ev n have ev': "new_events w w' = EvOpen path read_only
                # replicate (Suc (length ns)) (EvRead ?fd 4096) @ [EvClose ?fd]"
        by simp
      from ev' dl' last
      have "\<exists>ns. new_events w w' =
                EvOpen path read_only # replicate (Suc (length ns)) (EvRead ?fd 4096) @ [EvClose ?fd] \<and>
              delivered (verdicts w) (Suc ?t) (inodes w i) ns \<and>
              (case verdicts w (Suc ?t + length ns) of
                 Fault f \<Rightarrow>
                   r = Inl (system_error (errno_of f)
                         (buildCommittedFileReadError ''read'' path (errno_of f)))
               | Proceed m' \<Rightarrow> sum_list ns = length (inodes w i) \<and> r = Inr (inodes w i))"
        by blast
      with v0 look FileObj show ?thesis
        unfolding read_outcome_def Let_def by auto
    qed
    with tab env' ent' ino' show ?thesis by simp
  qed
  from all show "map_of (fdtab w') = map_of (fdtab w)" and "env_kept w w'"
    and "entries w' = entries w" and "inodes w' = inodes w" and "read_outcome path w r w'"
    by simp_all
qed

text \<open>Reading a file when the environment fails no call.\<close>

lemma readFile_contents:
  assumes run: "readFile path w = (r, w')"
    and nf: "no_fault_from w" and isfile: "names_file path i w"
  shows "r = Inr (inodes w i)"
proof -
  let ?t = "length (trace w)"
  from nf have pr: "\<And>n. ?t \<le> n \<Longrightarrow> \<exists>m. verdicts w n = Proceed m"
    by (simp add: no_fault_from_def)
  from pr [of ?t] obtain m where v0: "verdicts w ?t = Proceed m"
    by auto
  from isfile have look: "lookup_path w path = Inr (FileObj i 0)"
    by (simp add: names_file_def)
  from readFile_outcome(5) [OF run] obtain ns where
    last: "case verdicts w (Suc ?t + length ns) of
        Fault f \<Rightarrow>
          r = Inl (system_error (errno_of f)
                (buildCommittedFileReadError ''read'' path (errno_of f)))
      | Proceed m' \<Rightarrow> sum_list ns = length (inodes w i) \<and> r = Inr (inodes w i)"
    unfolding read_outcome_def Let_def v0 look by (auto cong: verdict.case_cong)
  from pr [of "Suc ?t + length ns"] obtain m' where "verdicts w (Suc ?t + length ns) = Proceed m'"
    by auto
  with last show ?thesis by simp
qed

text \<open>Whatever a read returns is the contents of the file that the path names.\<close>

lemma readFile_returns:
  assumes run: "readFile path w = (Inr s, w')"
  shows "\<exists>i. names_file path i w \<and> s = inodes w i"
proof -
  let ?t = "length (trace w)"
  note ro = readFile_outcome(5) [OF run, unfolded read_outcome_def Let_def]
  show ?thesis
  proof (cases "verdicts w ?t")
    case (Fault f)
    with ro show ?thesis by simp
  next
    case (Proceed m)
    show ?thesis
    proof (cases "lookup_path w path")
      case (Inl c)
      with ro Proceed show ?thesis by simp
    next
      case (Inr obj)
      show ?thesis
      proof (cases obj)
        case (DirObj d)
        with ro Proceed Inr show ?thesis
          by (cases "verdicts w (Suc ?t)") simp_all
      next
        case (FileObj i off)
        with ro Proceed Inr obtain ns where
          last: "case verdicts w (Suc ?t + length ns) of
              Fault f \<Rightarrow>
                Inr s = Inl (system_error (errno_of f)
                      (buildCommittedFileReadError ''read'' path (errno_of f)))
            | Proceed m' \<Rightarrow>
                sum_list ns = length (inodes w i) \<and> Inr s = (Inr (inodes w i) :: error + string)"
          by auto
        then have s: "s = inodes w i"
          by (cases "verdicts w (Suc ?t + length ns)") simp_all
        from Inr FileObj lookup_path_FileObj [of w path i off] have "off = 0" by simp
        with Inr FileObj s show ?thesis by (auto simp: names_file_def)
      qed
    qed
  qed
qed

section \<open>Runs without failure, and termination\<close>

lemmas demo_defs = demo_world_def demo_world_open_def demo_world_enospc_def demo_world_eio_def
  demo_handle_def demo_file_def

lemmas run_defs = sys_open_def sys_openat_def sys_write_def sys_read_def sys_fsync_def
  sys_close_def sys_unlinkat_def sys_renameat_def verdict_now_def log_event_def fail_with_def
  install_fd_def alloc_fd_def fresh_inode_def write_at_def errno_of_def
  lookup_path_def names_dir_def special_name_def
  DirFd_ctor_def WriteFd_ctor_def BaseFd_sync_def BaseFd_close_def BaseFd_dtor_def
  DirFd_unlink_def DirFd_renameFile_def NO_FILE_def system_error_def
  dirName_def baseName_def posix_dirname_def posix_basename_def strip_trailing_slashes_def
  slash_def O_RDONLY_def O_WRONLY_def O_CREAT_def O_TRUNC_def O_CLOEXEC_def
  S_IRUSR_def S_IWUSR_def S_IRGRP_def S_IROTH_def ENOENT_def EBADF_def ENOTDIR_def EISDIR_def
  EBUSY_def buildCommittedFileError_def buildCommittedFileReadError_def strerror_def

lemma no_fault_from_later:
  assumes "no_fault_from w" and "env_kept w w1" and "trace w1 = trace w @ xs"
  shows "no_fault_from w1"
  using assms by (simp add: no_fault_from_def env_kept_def)

lemma progress_from_later:
  assumes "progress_from w" and "env_kept w w1" and "trace w1 = trace w @ xs"
  shows "progress_from w1"
  using assms by (simp add: progress_from_def env_kept_def)

lemma not_faulted: "no_fault_from w \<Longrightarrow> \<not> faulted w w1"
  unfolding no_fault_from_def faulted_def by (metis verdict.distinct(1))

lemma sys_write_progress:
  assumes "sys_write r buf w = (ret, w1)" and "0 \<le> ret" and "verdict_now w \<noteq> Proceed 0"
    and "buf \<noteq> []"
  shows "0 < ret"
proof -
  from assms(1) have r: "ret = fst (sys_write r buf w)"
    by simp
  from assms(2-4) show ?thesis
    unfolding r
    by (auto simp: sys_write_def kernel_defs
          split: option.splits verdict.splits fobj.splits if_splits)
qed

lemma writeAll_loop_returns:
  assumes "sz = length data"
  shows "progress_from w \<Longrightarrow> \<exists>y. writeAll_loop this data sz written w = Some y"
proof (induction "sz - written" arbitrary: written w rule: less_induct)
  case less
  show ?case
  proof (cases "written < sz")
    case False
    then show ?thesis by (simp add: writeAll_loop.simps [of this data sz written w])
  next
    case True
    obtain ret w1 where s: "sys_write (fd this) (take (sz - written) (drop written data)) w = (ret, w1)"
      by (cases "sys_write (fd this) (take (sz - written) (drop written data)) w") auto
    note eff = sys_write_effect [OF s]
    show ?thesis
    proof (cases "ret < 0")
      case neg: True
      with True s show ?thesis by (simp add: writeAll_loop.simps [of this data sz written w])
    next
      case False
      then have ret0: "0 \<le> ret" by simp
      from less.prems have "verdict_now w \<noteq> Proceed 0"
        by (simp add: progress_from_def verdict_now_def)
      moreover from True assms have "take (sz - written) (drop written data) \<noteq> []" by simp
      ultimately have pos: "0 < ret"
        using sys_write_progress [OF s ret0] by blast
      from eff(5) [OF ret0] assms have "nat ret \<le> sz - written" by auto
      with pos True have dec: "sz - (written + nat ret) < sz - written" by simp
      from less.prems eff(2) eff(1) have "progress_from w1" by (rule progress_from_later)
      from less.hyps [OF dec this] obtain y where
        "writeAll_loop this data sz (written + nat ret) w1 = Some y" ..
      with True s False show ?thesis
        by (simp add: writeAll_loop.simps [of this data sz written w])
    qed
  qed
qed

lemma writeAll_empty: "writeAll this [] 0 w = Some (Inr (), w)"
  by (simp add: writeAll_def writeAll_loop.simps [of this "[]" 0 0 w])

lemma writeAll_returns:
  assumes "progress_from w \<or> data = []"
  shows "\<exists>y. writeAll this data (length data) w = Some y"
  using assms writeAll_loop_returns [of "length data" data w this 0] writeAll_empty [of this w]
  by (auto simp: writeAll_def)

lemma CommittedFile_write_returns:
  assumes "progress_from w \<or> data = []"
  shows "\<exists>y. CommittedFile_write this data w = Some y"
proof -
  let ?dir = "dirName (filePath this)"
  let ?work = "baseName (filePath this) @ ''.work''"
  obtain r1 w1 where c1: "DirFd_ctor ?dir w = (r1, w1)"
    by (cases "DirFd_ctor ?dir w") auto
  note e1 = DirFd_ctor_effect [OF c1]
  show ?thesis
  proof (cases r1)
    case (Inl e)
    with c1 show ?thesis by (simp add: CommittedFile_write_def)
  next
    case (Inr dirFd)
    obtain r2 w2 where c2: "WriteFd_ctor dirFd ?work w1 = (r2, w2)"
      by (cases "WriteFd_ctor dirFd ?work w1") auto
    note e2 = WriteFd_ctor_effect [OF c2]
    show ?thesis
    proof (cases r2)
      case (Inl e)
      with c1 c2 \<open>r1 = Inr dirFd\<close> show ?thesis by (simp add: CommittedFile_write_def Let_def)
    next
      case (Inr workFileFd)
      from e1(2) e2(2) have env: "env_kept w w2" by (rule env_kept_trans)
      from e1(1) e2(1) have "trace w2 = trace w @ [EvOpen ?dir (O_RDONLY OR O_CLOEXEC),
          EvOpenat (fd dirFd) ?work create_flags mode_0644]"
        by simp
      with assms env have "progress_from w2 \<or> data = []"
        by (auto intro: progress_from_later)
      from writeAll_returns [OF this] obtain y where
        "writeAll workFileFd data (length data) w2 = Some y" ..
      with c1 c2 \<open>r1 = Inr dirFd\<close> Inr show ?thesis
        by (auto simp: CommittedFile_write_def Let_def split: prod.splits sum.splits)
    qed
  qed
qed

lemma write_outcome_later:
  assumes "write_outcome this data w s r w1"
  shows "env_kept w w1" and "\<exists>xs. trace w1 = trace w @ xs"
  using assms unfolding write_outcome_def Let_def by blast+

lemma write_outcome_result:
  assumes "write_outcome this data w s r w1"
  shows "(s = Done) = (r = Inr ())"
  using assms unfolding write_outcome_def Let_def by (auto split: if_splits)

text \<open>
  Nothing but the environment makes a write fail when the directory exists and neither
  the name of the work file nor the target stands for a directory.
\<close>

lemma write_outcome_Done:
  assumes o: "write_outcome this data w s r w1"
    and nf: "no_fault_from w"
    and isdir: "dirName (filePath this) \<in> set (dirs w)"
    and work: "\<not> names_dir w (dirName (filePath this)) (baseName (filePath this) @ ''.work'')"
    and target: "\<not> names_dir w (dirName (filePath this)) (baseName (filePath this))"
  shows "s = Done"
proof (rule ccontr)
  let ?dir = "dirName (filePath this)"
  let ?name = "baseName (filePath this)"
  assume "s \<noteq> Done"
  with o obtain ns c where
    fl: "failed_at s w ?dir ?name
           (length (trace w) + steps_done s (length (calls s data ns)) - 1) c"
    unfolding write_outcome_def Let_def by auto
  let ?t = "length (trace w) + steps_done s (length (calls s data ns)) - 1"
  from steps_done_pos [of s "length (calls s data ns)"] have "length (trace w) \<le> ?t"
    by simp
  with nf obtain m where "verdicts w ?t = Proceed m"
    unfolding no_fault_from_def by blast
  with fl have c: "cause_at s w ?dir ?name c"
    by (simp add: failed_at_def)
  from isdir dirName_nonempty have look: "lookup_path w ?dir = Inr (DirObj ?dir)"
    by (rule lookup_dir [rotated])
  from target have "\<not> special_name ?name" by (simp add: names_dir_def)
  with c look work target show False
    by (cases s) simp_all
qed

lemma CommittedFile_write_succeeds:
  assumes "no_fault_from w" and "progress_from w \<or> data = []"
    and "dirName (filePath this) \<in> set (dirs w)"
    and "\<not> names_dir w (dirName (filePath this)) (baseName (filePath this) @ ''.work'')"
    and "\<not> names_dir w (dirName (filePath this)) (baseName (filePath this))"
  shows "\<exists>w1. CommittedFile_write this data w = Some (Inr (), w1)"
proof -
  from CommittedFile_write_returns [OF assms(2), of this] obtain r w1 where
    run: "CommittedFile_write this data w = Some (r, w1)"
    by auto
  from CommittedFile_write_outcome [OF run] obtain s where o: "write_outcome this data w s r w1" ..
  from write_outcome_Done [OF o assms(1,3,4,5)] write_outcome_result [OF o] have "r = Inr ()"
    by simp
  with run show ?thesis by blast
qed

lemma committed_target:
  assumes "committed dir name j content w w1"
  shows "map_of (entries w1) (dir, name) = Some j" and "inodes w1 j = content"
  using assms by (auto simp: committed_def split: if_splits)

lemma staged_frame:
  assumes "staged dir name j content w w1"
    and "\<forall>i. map_of (entries w) (dir, name @ ''.work'') = Some i
           \<longrightarrow> map_of (entries w) (dir, name) \<noteq> Some i"
  shows "\<forall>k. k \<noteq> (dir, name @ ''.work'') \<longrightarrow> map_of (entries w1) k = map_of (entries w) k"
    and "\<forall>i. map_of (entries w) (dir, name) = Some i \<longrightarrow> inodes w1 i = inodes w i"
    and "map_of (entries w1) (dir, name @ ''.work'') = Some j"
    and "map_of (entries w1) (dir, name) \<noteq> Some j"
  using assms by (auto simp: staged_def work_inode_def)

section \<open>The write loop: the whole buffer or an error\<close>





section \<open>The commit protocol\<close>



section \<open>Construction\<close>

lemma map_of_released:
  assumes "fdtab v = (alloc_fd w, obj) # fdtab w"
  shows "map_of (AList.delete (alloc_fd w) (fdtab v)) = map_of (fdtab w)"
  using assms alloc_fd_unbound [of w] by (simp add: delete_conv' fun_eq_iff)

text \<open>
  The outcome of \<^verbatim>\<open>cleanup\<close>, exit by exit: the open of the directory fails; the unlink fails
  with an error other than \<^verbatim>\<open>ENOENT\<close>; the close fails; or all three calls went through.
\<close>

lemma cleanup_effect:
  assumes run: "cleanup this w = (r, w1)"
  shows "env_kept w w1"
    and "inodes w1 = inodes w"
    and "map_of (fdtab w1) = map_of (fdtab w)"
    and "k \<noteq> (dirName (filePath this), baseName (filePath this) @ ''.work'') \<Longrightarrow>
           map_of (entries w1) k = map_of (entries w) k"
    and "r = Inr u \<Longrightarrow>
           dirName (filePath this) \<in> set (dirs w) \<and>
           \<not> names_dir w (dirName (filePath this)) (baseName (filePath this) @ ''.work'') \<and>
           map_of (entries w1) (dirName (filePath this), baseName (filePath this) @ ''.work'') = None \<and>
           proceeds w (length (trace w)) 3 \<and>
           trace w1 = trace w @
             [EvOpen (dirName (filePath this)) (O_RDONLY OR O_CLOEXEC),
              EvUnlinkat (alloc_fd w) (baseName (filePath this) @ ''.work''),
              EvClose (alloc_fd w)]"
    and "r = Inl e \<Longrightarrow>
           (entries w1 = entries w \<and>
            (\<exists>c. e = system_error c
                  (buildCommittedFileError ''open'' (dirName (filePath this)) [] [] c) \<and>
                 (case verdicts w (length (trace w)) of
                    Fault f \<Rightarrow> c = errno_of f
                  | Proceed m \<Rightarrow> lookup_path w (dirName (filePath this)) = Inl c))) \<or>
           (entries w1 = entries w \<and> proceeds w (length (trace w)) 1 \<and>
            (\<exists>c. c \<noteq> ENOENT \<and>
                 e = system_error c
                    (buildCommittedFileError ''unlink'' (dirName (filePath this))
                       (baseName (filePath this) @ ''.work'') [] c) \<and>
                 (case verdicts w (Suc (length (trace w))) of
                    Fault f \<Rightarrow> c = errno_of f
                  | Proceed m \<Rightarrow>
                      (case lookup_path w (dirName (filePath this)) of
                         Inr (FileObj i off) \<Rightarrow> c = ENOTDIR
                       | Inr (DirObj d) \<Rightarrow>
                           names_dir w (dirName (filePath this))
                             (baseName (filePath this) @ ''.work'') \<and> c = EISDIR
                       | Inl c' \<Rightarrow> False)))) \<or>
           (proceeds w (length (trace w)) 2 \<and>
            (\<exists>f. verdicts w (Suc (Suc (length (trace w)))) = Fault f \<and>
                 e = system_error (errno_of f)
                    (buildCommittedFileError ''close'' (dirName (filePath this)) [] []
                       (errno_of f))))"
proof -
  define dir where "dir = dirName (filePath this)"
  define work where "work = baseName (filePath this) @ ''.work''"
  let ?t = "length (trace w)"
  let ?d = "alloc_fd w"
  obtain rd v1 where c1: "DirFd_ctor dir w = (rd, v1)"
    by (cases "DirFd_ctor dir w")
  note e1 = DirFd_ctor_effect [OF c1]
  have all: "env_kept w w1 \<and> inodes w1 = inodes w \<and> map_of (fdtab w1) = map_of (fdtab w) \<and>
      (\<forall>k. k \<noteq> (dir, work) \<longrightarrow> map_of (entries w1) k = map_of (entries w) k) \<and>
      (\<forall>u. r = Inr u \<longrightarrow> dir \<in> set (dirs w) \<and> \<not> names_dir w dir work \<and>
         map_of (entries w1) (dir, work) = None \<and> proceeds w ?t 3 \<and>
         trace w1 = trace w @ [EvOpen dir (O_RDONLY OR O_CLOEXEC),
            EvUnlinkat ?d work, EvClose ?d]) \<and>
      (\<forall>e. r = Inl e \<longrightarrow>
         (entries w1 = entries w \<and>
          (\<exists>c. e = system_error c (buildCommittedFileError ''open'' dir [] [] c) \<and>
               (case verdicts w ?t of
                  Fault f \<Rightarrow> c = errno_of f
                | Proceed m \<Rightarrow> lookup_path w dir = Inl c))) \<or>
         (entries w1 = entries w \<and> proceeds w ?t 1 \<and>
          (\<exists>c. c \<noteq> ENOENT \<and>
               e = system_error c (buildCommittedFileError ''unlink'' dir work [] c) \<and>
               (case verdicts w (Suc ?t) of
                  Fault f \<Rightarrow> c = errno_of f
                | Proceed m \<Rightarrow>
                    (case lookup_path w dir of
                       Inr (FileObj i off) \<Rightarrow> c = ENOTDIR
                     | Inr (DirObj d) \<Rightarrow> names_dir w dir work \<and> c = EISDIR
                     | Inl c' \<Rightarrow> False)))) \<or>
         (proceeds w ?t 2 \<and>
          (\<exists>f. verdicts w (Suc (Suc ?t)) = Fault f \<and>
               e = system_error (errno_of f)
                  (buildCommittedFileError ''close'' dir [] [] (errno_of f)))))"
  proof (cases rd)
    case (Inl e)
    with run c1 have res: "r = Inl e" "w1 = v1"
      by (simp_all add: cleanup_def dir_def Let_def)
    from e1(5) [OF Inl] have tab: "fdtab v1 = fdtab w"
      and e: "e = system_error (errno v1) (buildCommittedFileError ''open'' dir [] [] (errno v1))"
      and why: "case verdicts w ?t of
                  Fault f \<Rightarrow> errno v1 = errno_of f
                | Proceed m \<Rightarrow> lookup_path w dir = Inl (errno v1)"
      by (simp_all add: verdict_now_def)
    from e why
    have "\<exists>c. e = system_error c (buildCommittedFileError ''open'' dir [] [] c) \<and>
               (case verdicts w ?t of
                  Fault f \<Rightarrow> c = errno_of f
                | Proceed m \<Rightarrow> lookup_path w dir = Inl c)"
      by blast
    with e1(2,3,4) tab show ?thesis
      unfolding res by simp
  next
    case (Inr dirFd)
    from e1(6) [OF Inr] obtain obj where
      dirFd: "dirFd = \<lparr>directory = dir, file = [], fd = ?d\<rparr>" and
      v0: "\<exists>n. verdict_now w = Proceed n" and
      look: "lookup_path w dir = Inr obj" and
      tab1: "fdtab v1 = (?d, obj) # fdtab w"
      by blast
    have nonneg: "0 \<le> fd dirFd" using alloc_fd_nonneg [of w] by (simp add: dirFd)
    have fdd: "fd dirFd = ?d" "directory dirFd = dir" "BaseFd.file dirFd = []"
      by (simp_all add: dirFd)
    from proceeds_Suc [OF proceeds_0 env_kept_refl _ v0, of ?t]
    have p1: "proceeds w ?t 1" by simp
    from e1(1) have len1: "length (trace v1) = ?t + 1" by simp
    from e1(2) have vs1: "verdicts v1 = verdicts w" and dirs1: "dirs v1 = dirs w"
      by (simp_all add: env_kept_def)
    obtain ru v2 where c2: "DirFd_unlink dirFd work v1 = (ru, v2)"
      by (cases "DirFd_unlink dirFd work v1")
    note e2 = DirFd_unlink_effect [OF c2, unfolded fdd]
    have now1: "verdict_now v1 = verdicts w (Suc ?t)"
      using e1(1) vs1 by (simp add: verdict_now_def)
    have env2: "env_kept w v2" using e1(2) e2(2) by (rule env_kept_trans)
    have tr2: "trace v2 = trace w @ [EvOpen dir (O_RDONLY OR O_CLOEXEC), EvUnlinkat ?d work]"
      using e1(1) e2(1) by simp
    then have len2: "length (trace v2) = ?t + 2" by simp
    show ?thesis
    proof (cases ru)
      case (Inl e)
      with run c1 c2 Inr have res: "r = Inl e" "w1 = BaseFd_dtor dirFd v2"
        by (simp_all add: cleanup_def dir_def work_def Let_def)
      note e3 = BaseFd_dtor_effect [OF nonneg, of v2, unfolded fdd]
      from e2(5) [OF Inl, unfolded now1] have ent: "entries v2 = entries v1"
        and ne: "errno v2 \<noteq> ENOENT"
        and e: "e = system_error (errno v2) (buildCommittedFileError ''unlink'' dir work [] (errno v2))"
        and why0: "case verdicts w (Suc ?t) of
                     Fault f \<Rightarrow> errno v2 = errno_of f
                   | Proceed n \<Rightarrow>
                       (case map_of (fdtab v1) ?d of
                          None \<Rightarrow> errno v2 = EBADF
                        | Some (FileObj i off) \<Rightarrow> errno v2 = ENOTDIR
                        | Some (DirObj d') \<Rightarrow> names_dir v1 d' work \<and> errno v2 = EISDIR)"
        by blast+
      have why: "case verdicts w (Suc ?t) of
                   Fault f \<Rightarrow> errno v2 = errno_of f
                 | Proceed m \<Rightarrow>
                     (case lookup_path w dir of
                        Inr (FileObj i off) \<Rightarrow> errno v2 = ENOTDIR
                      | Inr (DirObj d) \<Rightarrow> names_dir w dir work \<and> errno v2 = EISDIR
                      | Inl c' \<Rightarrow> False)"
      proof (cases "verdicts w (Suc ?t)")
        case (Fault f)
        with why0 show ?thesis by simp
      next
        case (Proceed n)
        show ?thesis
        proof (cases obj)
          case (DirObj d')
          with look lookup_path_DirObj [of w dir d'] have "d' = dir" by simp
          with Proceed why0 tab1 DirObj look names_dir_kept [OF dirs1] show ?thesis by simp
        next
          case (FileObj i off)
          with Proceed why0 tab1 look show ?thesis by simp
        qed
      qed
      have env: "env_kept w w1" unfolding res using env2 e3(2) by (rule env_kept_trans)
      have ino: "inodes w1 = inodes w" unfolding res using e1(4) e2(3) e3(4) by simp
      have ents: "entries w1 = entries w" unfolding res using e1(3) ent e3(3) by simp
      have tab: "map_of (fdtab w1) = map_of (fdtab w)"
        unfolding res e3(5) using map_of_released [of v2 w obj] e2(4) tab1 by simp
      from ne e why
      have "\<exists>c. c \<noteq> ENOENT \<and>
               e = system_error c (buildCommittedFileError ''unlink'' dir work [] c) \<and>
               (case verdicts w (Suc ?t) of
                  Fault f \<Rightarrow> c = errno_of f
                | Proceed m \<Rightarrow>
                    (case lookup_path w dir of
                       Inr (FileObj i off) \<Rightarrow> c = ENOTDIR
                     | Inr (DirObj d) \<Rightarrow> names_dir w dir work \<and> c = EISDIR
                     | Inl c' \<Rightarrow> False))"
        by blast
      with env ino ents tab p1 show ?thesis
        unfolding res(1) by simp
    next
      case (Inr u)
      from e2(6) [OF Inr] obtain d where
        v1: "\<exists>n. verdict_now v1 = Proceed n" and
        isdir: "map_of (fdtab v1) ?d = Some (DirObj d)" and
        nodir: "\<not> names_dir v1 d work" and
        ent2: "map_of (entries v2) = (map_of (entries v1))((d, work) := None)"
        by blast
      from isdir tab1 have "obj = DirObj d" by simp
      with look lookup_path_DirObj [of w dir d] have d: "d = dir" and ex: "dir \<in> set (dirs w)"
        by simp_all
      from nodir names_dir_kept [OF dirs1] d have nodir': "\<not> names_dir w dir work" by simp
      from proceeds_Suc [OF p1 e1(2) len1 v1]
      have p2: "proceeds w ?t 2" by (simp add: numeral_2_eq_2)
      obtain rc dirFd1 v3 where c3: "BaseFd_close dirFd v2 = (rc, dirFd1, v3)"
        by (cases "BaseFd_close dirFd v2")
      note e3 = BaseFd_close_effect [OF c3 nonneg, unfolded fdd]
      from e3(1) have closed: "fd dirFd1 < 0" by simp
      from run c1 c2 c3 \<open>rd = Inr dirFd\<close> Inr have w1: "w1 = v3"
        and r: "r = (case rc of Inl e \<Rightarrow> Inl e | Inr u \<Rightarrow> Inr ())"
        by (simp_all add: cleanup_def dir_def work_def Let_def BaseFd_dtor_closed [OF closed]
              split: sum.splits)
      have env: "env_kept w w1" unfolding w1 using env2 e3(3) by (rule env_kept_trans)
      have ino: "inodes w1 = inodes w" unfolding w1 using e1(4) e2(3) e3(5) by simp
      have ents: "map_of (entries w1) = (map_of (entries w))((dir, work) := None)"
        unfolding w1 using e1(3) ent2 e3(4) d by simp
      have tab: "map_of (fdtab w1) = map_of (fdtab w)"
        unfolding w1 e3(6) using map_of_released [of v2 w obj] e2(4) tab1 by simp
      have tr: "trace w1 = trace w @ [EvOpen dir (O_RDONLY OR O_CLOEXEC),
            EvUnlinkat ?d work, EvClose ?d]"
        unfolding w1 using tr2 e3(2) by simp
      from e2(4) tab1 have bound: "map_of (fdtab v2) ?d \<noteq> None" by simp
      have now2: "verdict_now v2 = verdicts w (Suc (Suc ?t))"
        using tr2 env2 by (simp add: verdict_now_def env_kept_def)
      show ?thesis
      proof (cases rc)
        case (Inl e)
        from e3(7) [OF Inl] bound now2 obtain f where
          "verdicts w (Suc (Suc ?t)) = Fault f" and
          "e = system_error (errno_of f) (buildCommittedFileError ''close'' dir [] [] (errno_of f))"
          by auto
        with env ino ents tab p2 show ?thesis
          unfolding r Inl by auto
      next
        case (Inr u')
        from proceeds_Suc [OF p2 env2 len2 e3(8) [OF Inr]]
        have p3: "proceeds w ?t 3" by (simp add: eval_nat_numeral)
        from env ino ents tab tr ex nodir' p3 show ?thesis
          unfolding r Inr by auto
      qed
    qed
  qed
  note facts = all [unfolded dir_def work_def]
  show "env_kept w w1" using facts by blast
  show "inodes w1 = inodes w" using facts by blast
  show "map_of (fdtab w1) = map_of (fdtab w)" using facts by blast
  show "k \<noteq> (dirName (filePath this), baseName (filePath this) @ ''.work'') \<Longrightarrow>
           map_of (entries w1) k = map_of (entries w) k"
    using facts by blast
  show "r = Inr u \<Longrightarrow>
           dirName (filePath this) \<in> set (dirs w) \<and>
           \<not> names_dir w (dirName (filePath this)) (baseName (filePath this) @ ''.work'') \<and>
           map_of (entries w1) (dirName (filePath this), baseName (filePath this) @ ''.work'') = None \<and>
           proceeds w (length (trace w)) 3 \<and>
           trace w1 = trace w @
             [EvOpen (dirName (filePath this)) (O_RDONLY OR O_CLOEXEC),
              EvUnlinkat (alloc_fd w) (baseName (filePath this) @ ''.work''),
              EvClose (alloc_fd w)]"
    using facts by blast
  show "r = Inl e \<Longrightarrow>
           (entries w1 = entries w \<and>
            (\<exists>c. e = system_error c
                  (buildCommittedFileError ''open'' (dirName (filePath this)) [] [] c) \<and>
                 (case verdicts w (length (trace w)) of
                    Fault f \<Rightarrow> c = errno_of f
                  | Proceed m \<Rightarrow> lookup_path w (dirName (filePath this)) = Inl c))) \<or>
           (entries w1 = entries w \<and> proceeds w (length (trace w)) 1 \<and>
            (\<exists>c. c \<noteq> ENOENT \<and>
                 e = system_error c
                    (buildCommittedFileError ''unlink'' (dirName (filePath this))
                       (baseName (filePath this) @ ''.work'') [] c) \<and>
                 (case verdicts w (Suc (length (trace w))) of
                    Fault f \<Rightarrow> c = errno_of f
                  | Proceed m \<Rightarrow>
                      (case lookup_path w (dirName (filePath this)) of
                         Inr (FileObj i off) \<Rightarrow> c = ENOTDIR
                       | Inr (DirObj d) \<Rightarrow>
                           names_dir w (dirName (filePath this))
                             (baseName (filePath this) @ ''.work'') \<and> c = EISDIR
                       | Inl c' \<Rightarrow> False)))) \<or>
           (proceeds w (length (trace w)) 2 \<and>
            (\<exists>f. verdicts w (Suc (Suc (length (trace w)))) = Fault f \<and>
                 e = system_error (errno_of f)
                    (buildCommittedFileError ''close'' (dirName (filePath this)) [] []
                       (errno_of f))))"
    using facts by blast
qed

lemma CommittedFile_ctor_cleanup:
  "CommittedFile_ctor path w = (r, w1) \<Longrightarrow>
     \<exists>rc. cleanup \<lparr>filePath = path\<rparr> w = (rc, w1) \<and>
          r = (case rc of Inl e \<Rightarrow> Inl e | Inr u \<Rightarrow> Inr \<lparr>filePath = path\<rparr>)"
  by (auto simp: CommittedFile_ctor_def Let_def split: prod.splits sum.splits)

text \<open>In every state in which an object is in use its directory exists, the name of its
  work file does not stand for a directory, and that name is not another name of the
  target's inode.\<close>

lemma constructed_private:
  assumes "CommittedFile_ctor path w0 = (Inr this, w)"
  shows "filePath this = path"
    and "dirName path \<in> set (dirs w)"
    and "\<not> names_dir w (dirName path) (baseName path @ ''.work'')"
    and "map_of (entries w) (dirName path, baseName path @ ''.work'') = None"
proof -
  from CommittedFile_ctor_cleanup [OF assms] obtain rc where
    c: "cleanup \<lparr>filePath = path\<rparr> w0 = (rc, w)" and
    r: "Inr this = (case rc of Inl e \<Rightarrow> Inl e | Inr u \<Rightarrow> Inr \<lparr>filePath = path\<rparr>)"
    by blast
  from r obtain u where rc: "rc = Inr u" and obj: "this = \<lparr>filePath = path\<rparr>"
    by (cases rc) simp_all
  note eff = cleanup_effect [OF c, simplified]
  from eff(1) have dirs: "dirs w = dirs w0" by (simp add: env_kept_def)
  from obj show "filePath this = path" by simp
  from eff(5) rc dirs show "dirName path \<in> set (dirs w)" by simp
  from eff(5) rc names_dir_kept [OF dirs]
  show "\<not> names_dir w (dirName path) (baseName path @ ''.work'')" by simp
  from eff(5) rc show "map_of (entries w) (dirName path, baseName path @ ''.work'') = None"
    by simp
qed

lemma write_keeps_private:
  assumes o: "write_outcome this data w s r w1" and p: "work_private this w"
  shows "work_private this w1"
proof -
  let ?dir = "dirName (filePath this)"
  let ?name = "baseName (filePath this)"
  from o obtain j k where fs: "files_at s ?dir ?name j data k w w1"
    unfolding write_outcome_def Let_def by blast
  from p have sep: "\<forall>i. map_of (entries w) (?dir, ?name @ ''.work'') = Some i
      \<longrightarrow> map_of (entries w) (?dir, ?name) \<noteq> Some i"
    by (simp add: work_private_def)
  have wn: "(?dir, ?name @ ''.work'') \<noteq> (?dir, ?name)" by simp
  consider (same) "entries w1 = entries w"
    | (staged) c where "staged ?dir ?name j c w w1"
    | (committed) c where "committed ?dir ?name j c w w1"
    using fs by (cases s) auto
  then show ?thesis
  proof cases
    case same
    with p show ?thesis by (simp add: work_private_def)
  next
    case staged
    from staged_frame(3,4) [OF staged sep] show ?thesis
      by (simp add: work_private_def)
  next
    case committed
    then have wi: "work_inode ?dir ?name j w" by (simp add: committed_def)
    with sep have "map_of (entries w) (?dir, ?name) \<noteq> Some j"
      by (auto simp: work_inode_def)
    with committed wn show ?thesis
      by (simp add: committed_def work_private_def)
  qed
qed

lemma in_use_invariant:
  assumes "in_use this w"
  shows "work_private this w \<and> dirName (filePath this) \<in> set (dirs w) \<and>
         \<not> names_dir w (dirName (filePath this)) (baseName (filePath this) @ ''.work'')"
  using assms
proof (induction rule: in_use.induct)
  case (constructed path w0 this w)
  from constructed_private [OF constructed] show ?case
    by (simp add: work_private_def)
next
  case (written this w data r w1)
  from CommittedFile_write_outcome [OF written(2)] obtain s where
    o: "write_outcome this data w s r w1" ..
  from write_outcome_later(1) [OF o] have dirs: "dirs w1 = dirs w" by (simp add: env_kept_def)
  from write_keeps_private [OF o] written.IH dirs names_dir_kept [OF dirs] show ?case by simp
next
  case (was_read this w r w1)
  then have run: "readFile (filePath this) w = (r, w1)" by (simp add: CommittedFile_read_def)
  note eff = readFile_outcome [OF run]
  from eff(2) have dirs: "dirs w1 = dirs w" by (simp add: env_kept_def)
  from was_read.IH eff(3) dirs names_dir_kept [OF dirs] show ?case
    by (simp add: work_private_def)
qed

section \<open>The reader\<close>

lemma delivered_nothing: "delivered vs t [] ns \<Longrightarrow> ns = []"
  by (cases ns) simp_all

text \<open>
  C7. A call of \<^verbatim>\<open>readFile(path)\<close> opens the path read-only. If the \<^verbatim>\<open>open\<close> fails, its error
  is thrown as \<^verbatim>\<open>open\<close> error and nothing else is called. Otherwise \<^verbatim>\<open>read\<close> is called with
  4096 bytes until a call finds the end of the file or fails, the chunks delivered are
  the contents in order, and the descriptor is closed after the last \<^verbatim>\<open>read\<close>, on success
  and on failure alike: the descriptor table is afterwards what it was before the call.
  When the last \<^verbatim>\<open>read\<close> fails, the error thrown carries the error number of that \<^verbatim>\<open>read\<close>,
  whatever the \<^verbatim>\<open>close\<close> that follows it does to \<^verbatim>\<open>errno\<close>; when it finds the end of the
  file, the result is the whole contents. No file is changed. An empty file takes one
  \<^verbatim>\<open>read\<close> and yields the empty sequence.
\<close>

theorem readFile_reads_all_and_closes:
  assumes run: "readFile path w = (r, w1)"
  shows "read_outcome path w r w1 \<and>
    map_of (fdtab w1) = map_of (fdtab w) \<and> entries w1 = entries w \<and> inodes w1 = inodes w \<and>
    (\<forall>i m m'. names_file path i w \<and> inodes w i = [] \<and>
        verdicts w (length (trace w)) = Proceed m \<and>
        verdicts w (Suc (length (trace w))) = Proceed m'
      \<longrightarrow> r = Inr [] \<and>
          new_events w w1 =
            [EvOpen path read_only, EvRead (alloc_fd w) 4096, EvClose (alloc_fd w)])"
proof -
  note eff = readFile_outcome [OF run]
  have empty: "r = Inr [] \<and>
      new_events w w1 = [EvOpen path read_only, EvRead (alloc_fd w) 4096, EvClose (alloc_fd w)]"
    if nm: "names_file path i w" and e: "inodes w i = []"
      and v0: "verdicts w (length (trace w)) = Proceed m"
      and v1: "verdicts w (Suc (length (trace w))) = Proceed m'" for i m m'
  proof -
    from nm have look: "lookup_path w path = Inr (FileObj i 0)" by (simp add: names_file_def)
    from eff(5) [unfolded read_outcome_def Let_def v0 look] obtain ns where
      ev: "new_events w w1 = EvOpen path read_only #
             replicate (Suc (length ns)) (EvRead (alloc_fd w) 4096) @ [EvClose (alloc_fd w)]" and
      dl: "delivered (verdicts w) (Suc (length (trace w))) (inodes w i) ns" and
      last: "case verdicts w (Suc (length (trace w)) + length ns) of
               Fault f \<Rightarrow>
                 r = Inl (system_error (errno_of f)
                       (buildCommittedFileReadError ''read'' path (errno_of f)))
             | Proceed m' \<Rightarrow> sum_list ns = length (inodes w i) \<and> r = Inr (inodes w i)"
      by auto
    from dl e have ns: "ns = []" by (simp add: delivered_nothing)
    from last v1 e have "r = Inr []" unfolding ns by simp
    with ev show ?thesis unfolding ns by simp
  qed
  from eff empty show ?thesis by blast
qed

theorem readFile_reads_all_and_closes_witness:
  \<open>fst (readFile ''f'' demo_world) = Inr ''old'' \<and>
   new_events demo_world (snd (readFile ''f'' demo_world)) =
     [EvOpen ''f'' read_only, EvRead 0 4096, EvRead 0 4096, EvClose 0] \<and>
   map_of (fdtab (snd (readFile ''f'' demo_world))) = map_of (fdtab demo_world) \<and>
   fst (readFile ''f'' demo_world_read_fails)
     = Inl (system_error 5 ''read("f") Input/output error'') \<and>
   verdicts demo_world_read_fails 1 = Fault EIO \<and>
   errno (snd (readFile ''f'' demo_world_read_fails)) = 4 \<and>
   new_events demo_world_read_fails (snd (readFile ''f'' demo_world_read_fails)) =
     [EvOpen ''f'' read_only, EvRead 0 4096, EvClose 0] \<and>
   map_of (fdtab (snd (readFile ''f'' demo_world_read_fails)))
     = map_of (fdtab demo_world_read_fails) \<and>
   read_outcome ''f'' demo_world_read_fails (fst (readFile ''f'' demo_world_read_fails))
     (snd (readFile ''f'' demo_world_read_fails))\<close>
proof -
  have run: "readFile ''f'' demo_world
      = (fst (readFile ''f'' demo_world), snd (readFile ''f'' demo_world))"
    by simp
  from readFile_reads_all_and_closes [OF run]
  have tab: "map_of (fdtab (snd (readFile ''f'' demo_world))) = map_of (fdtab demo_world)"
    by blast
  have ok: "fst (readFile ''f'' demo_world) = Inr ''old'' \<and>
     new_events demo_world (snd (readFile ''f'' demo_world)) =
       [EvOpen ''f'' read_only, EvRead 0 4096, EvRead 0 4096, EvClose 0]"
    by (simp add: readFile_def read_loop.simps demo_defs run_defs new_events_def read_only_def
          Let_def)
  have bad: \<open>fst (readFile ''f'' demo_world_read_fails)
       = Inl (system_error 5 ''read("f") Input/output error'') \<and>
     verdicts demo_world_read_fails 1 = Fault EIO \<and>
     errno (snd (readFile ''f'' demo_world_read_fails)) = 4 \<and>
     new_events demo_world_read_fails (snd (readFile ''f'' demo_world_read_fails)) =
       [EvOpen ''f'' read_only, EvRead 0 4096, EvClose 0]\<close>
    by (simp add: readFile_def read_loop.simps demo_defs demo_world_read_fails_def run_defs
          new_events_def read_only_def Let_def)
  have run2: "readFile ''f'' demo_world_read_fails
      = (fst (readFile ''f'' demo_world_read_fails), snd (readFile ''f'' demo_world_read_fails))"
    by simp
  from readFile_reads_all_and_closes [OF run2]
  have tab2: "map_of (fdtab (snd (readFile ''f'' demo_world_read_fails)))
     = map_of (fdtab demo_world_read_fails)"
    and out: "read_outcome ''f'' demo_world_read_fails (fst (readFile ''f'' demo_world_read_fails))
     (snd (readFile ''f'' demo_world_read_fails))"
    by blast+
  from ok tab bad tab2 out show ?thesis by simp
qed


end
